theory Spec2Isabelle
  imports Main "HOL-Library.Sublist"
begin

section \<open>Python strings\<close>

text \<open>
  A Python \<open>str\<close> is modelled as a \<open>string\<close> whose characters are the code points
  U+0000 to U+00FF; text with other code points is outside the model. On this range
  the whitespace, line-break and lower-case tables are Python's: U+0085 and U+00A0
  are whitespace, U+0085 breaks a line, and the capital letters U+00C0 to U+00DE
  (without the multiplication sign U+00D7) are lower-cased like A to Z.
\<close>

definition isspace :: "char \<Rightarrow> bool" where
  "isspace c = (c \<in> set [CHR 0x09, CHR 0x0A, CHR 0x0B, CHR 0x0C, CHR 0x0D,
                           CHR 0x1C, CHR 0x1D, CHR 0x1E, CHR 0x1F, CHR 0x20,
                           CHR 0x85, CHR 0xA0])"

definition lstrip :: "string \<Rightarrow> string" where
  "lstrip s = dropWhile isspace s"

definition rstrip :: "string \<Rightarrow> string" where
  "rstrip s = rev (dropWhile isspace (rev s))"

definition strip :: "string \<Rightarrow> string" where
  "strip s = rstrip (lstrip s)"

text \<open>\<open>s.strip(chars)\<close>: the characters of \<open>chars\<close> are removed from both ends.\<close>

definition strip_chars :: "string \<Rightarrow> string \<Rightarrow> string" where
  "strip_chars chars s =
     rev (dropWhile (\<lambda>c. c \<in> set chars) (rev (dropWhile (\<lambda>c. c \<in> set chars) s)))"

definition ascii_uppercase :: string where
  "ascii_uppercase = ''ABCDEFGHIJKLMNOPQRSTUVWXYZ''"

definition ascii_lowercase :: string where
  "ascii_lowercase = ''abcdefghijklmnopqrstuvwxyz''"

text \<open>The capital letters U+00C0 to U+00D6 and U+00D8 to U+00DE, and their small letters.\<close>

definition latin1_uppercase :: string where
  "latin1_uppercase =
     [CHR 0xC0, CHR 0xC1, CHR 0xC2, CHR 0xC3, CHR 0xC4, CHR 0xC5, CHR 0xC6, CHR 0xC7,
      CHR 0xC8, CHR 0xC9, CHR 0xCA, CHR 0xCB, CHR 0xCC, CHR 0xCD, CHR 0xCE, CHR 0xCF,
      CHR 0xD0, CHR 0xD1, CHR 0xD2, CHR 0xD3, CHR 0xD4, CHR 0xD5, CHR 0xD6,
      CHR 0xD8, CHR 0xD9, CHR 0xDA, CHR 0xDB, CHR 0xDC, CHR 0xDD, CHR 0xDE]"

definition latin1_lowercase :: string where
  "latin1_lowercase =
     [CHR 0xE0, CHR 0xE1, CHR 0xE2, CHR 0xE3, CHR 0xE4, CHR 0xE5, CHR 0xE6, CHR 0xE7,
      CHR 0xE8, CHR 0xE9, CHR 0xEA, CHR 0xEB, CHR 0xEC, CHR 0xED, CHR 0xEE, CHR 0xEF,
      CHR 0xF0, CHR 0xF1, CHR 0xF2, CHR 0xF3, CHR 0xF4, CHR 0xF5, CHR 0xF6,
      CHR 0xF8, CHR 0xF9, CHR 0xFA, CHR 0xFB, CHR 0xFC, CHR 0xFD, CHR 0xFE]"

text \<open>\<open>s.lower()\<close>, character by character.\<close>

definition char_lower :: "char \<Rightarrow> char" where
  "char_lower c =
     (case map_of (zip (ascii_uppercase @ latin1_uppercase) (ascii_lowercase @ latin1_lowercase)) c of
        Some l \<Rightarrow> l | None \<Rightarrow> c)"

definition char_upper :: "char \<Rightarrow> char" where
  "char_upper c = (case map_of (zip ascii_lowercase ascii_uppercase) c of
                     Some u \<Rightarrow> u | None \<Rightarrow> c)"

definition lower :: "string \<Rightarrow> string" where
  "lower s = map char_lower s"

text \<open>
  \<open>s.title()\<close>: a cased character that follows an uncased one is upper-cased,
  a cased character that follows a cased one is lower-cased. The module applies it to
  directive names only, which are registered in ASCII, and it is modelled on the
  letters A to Z and a to z.
\<close>

fun title_from :: "bool \<Rightarrow> string \<Rightarrow> string" where
  "title_from prev_cased [] = []"
| "title_from prev_cased (c # cs) =
     (if c \<in> set ascii_lowercase then
        (if prev_cased then c else char_upper c) # title_from True cs
      else if c \<in> set ascii_uppercase then
        (if prev_cased then char_lower c else c) # title_from True cs
      else c # title_from False cs)"

definition title :: "string \<Rightarrow> string" where
  "title s = title_from False s"

definition is_linebreak :: "char \<Rightarrow> bool" where
  "is_linebreak c = (c \<in> set [CHR 0x0A, CHR 0x0B, CHR 0x0C, CHR 0x0D,
                                CHR 0x1C, CHR 0x1D, CHR 0x1E, CHR 0x85])"

text \<open>
  \<open>s.splitlines()\<close>: line breaks are not kept, \<open>\r\n\<close> is one break, and text
  that ends with a break has no empty last line.
\<close>

fun splitlines_from :: "string \<Rightarrow> string \<Rightarrow> string list" where
  "splitlines_from cur [] = (if cur = [] then [] else [cur])"
| "splitlines_from cur (c # cs) =
     (if is_linebreak c then
        (case cs of
           d # ds \<Rightarrow>
             if c = CHR 0x0D \<and> d = CHR 0x0A then cur # splitlines_from [] ds
             else cur # splitlines_from [] (d # ds)
         | [] \<Rightarrow> [cur])
      else splitlines_from (cur @ [c]) cs)"

definition splitlines :: "string \<Rightarrow> string list" where
  "splitlines s = splitlines_from [] s"

text \<open>\<open>s.split(sep, 1)\<close> for a one-character separator that occurs in \<open>s\<close>.\<close>

definition split_once :: "char \<Rightarrow> string \<Rightarrow> string \<times> string" where
  "split_once sep s = (takeWhile (\<lambda>c. c \<noteq> sep) s, drop 1 (dropWhile (\<lambda>c. c \<noteq> sep) s))"

section \<open>Exceptions\<close>

datatype exn =
    KeyError string
  | ValueError string
  | TypeError string
  | AttributeError string
  | DuplicateOptionError string
  | SphinxGherkinError string
  | NotFound string
  | NotADocumenter string

section \<open>The keyword tree\<close>

text \<open>
  The node classes are declared in \<open>sphinx_gherkin.gherkin\<close>. Every node has a
  \<open>keyword\<close> label and a \<open>summary\<close>; beyond these each class carries the
  attributes that its documenter reads in this module.
\<close>

datatype docstring = Docstring (mediatype: string) (content: string)

datatype datatable = DataTable (table_values: "string list list")

datatype keyword =
    Feature (keyword: string) (summary: string) string "keyword list"
  | Rule (keyword: string) (summary: string) "keyword list"
  | Background (keyword: string) (summary: string) "keyword list"
  | Scenario (keyword: string) (summary: string) "keyword list" "keyword list"
  | Step (keyword: string) (summary: string) "docstring option" "datatable option"
  | Examples (keyword: string) (summary: string) datatable

datatype keyword_class =
  FeatureClass | RuleClass | BackgroundClass | ScenarioClass | StepClass | ExamplesClass

fun class_of :: "keyword \<Rightarrow> keyword_class" where
  "class_of (Feature _ _ _ _) = FeatureClass"
| "class_of (Rule _ _ _) = RuleClass"
| "class_of (Background _ _ _) = BackgroundClass"
| "class_of (Scenario _ _ _ _) = ScenarioClass"
| "class_of (Step _ _ _ _) = StepClass"
| "class_of (Examples _ _ _) = ExamplesClass"

text \<open>Attribute reads; a node without the attribute raises \<open>AttributeError\<close>.\<close>

fun attr_description :: "keyword \<Rightarrow> exn + string" where
  "attr_description (Feature _ _ d _) = Inr d"
| "attr_description _ = Inl (AttributeError ''description'')"

fun attr_children :: "keyword \<Rightarrow> exn + keyword list" where
  "attr_children (Feature _ _ _ cs) = Inr cs"
| "attr_children (Rule _ _ cs) = Inr cs"
| "attr_children _ = Inl (AttributeError ''children'')"

fun attr_steps :: "keyword \<Rightarrow> exn + keyword list" where
  "attr_steps (Background _ _ ss) = Inr ss"
| "attr_steps (Scenario _ _ ss _) = Inr ss"
| "attr_steps _ = Inl (AttributeError ''steps'')"

fun attr_examples :: "keyword \<Rightarrow> exn + keyword list" where
  "attr_examples (Scenario _ _ _ es) = Inr es"
| "attr_examples _ = Inl (AttributeError ''examples'')"

fun attr_docstring :: "keyword \<Rightarrow> exn + docstring option" where
  "attr_docstring (Step _ _ d _) = Inr d"
| "attr_docstring _ = Inl (AttributeError ''docstring'')"

fun attr_datatable :: "keyword \<Rightarrow> exn + datatable option" where
  "attr_datatable (Step _ _ _ t) = Inr t"
| "attr_datatable (Examples _ _ t) = Inr (Some t)"
| "attr_datatable _ = Inl (AttributeError ''datatable'')"

section \<open>Documents and the generation state\<close>

text \<open>
  \<open>DocumentedKeyword\<close> is declared in the package root; it is the sequence of
  \<open>(label, summary)\<close> pairs it is built from.
\<close>

type_synonym documented_keyword = "(string \<times> string) list"

text \<open>
  A \<open>Document\<close> has a name, a root feature and the method \<open>get_ancestry\<close>, which is
  declared with the parser and taken here as a field of the document.
\<close>

record document =
  doc_name :: string
  doc_feature :: keyword
  get_ancestry :: "keyword \<Rightarrow> keyword list"

text \<open>One entry of a \<open>StringList\<close>: the text, its source and its offset.\<close>

type_synonym line = "string \<times> string \<times> int"

text \<open>
  What generation writes to: the bridge's \<open>result\<close> and \<open>record_dependencies\<close>,
  and the build environment's \<open>ref_context\<close>.
\<close>

record gen_state =
  result :: "line list"
  record_dependencies :: "string set"
  ref_context :: "string \<rightharpoonup> documented_keyword"

section \<open>Documenter classes\<close>

datatype documenter_class =
    Documenter
  | FeatureDocumenter
  | BackgroundDocumenter
  | ScenarioDocumenter
  | RuleDocumenter
  | StepDocumenter
  | ExamplesDocumenter

text \<open>An entry of the registry is a subclass of \<open>Documenter\<close> or some other class.\<close>

datatype registered = DocumenterSubclass documenter_class | OtherClass

record env =
  domain_name :: string
  objtype_for_keyword_class :: "keyword_class \<Rightarrow> string"
  documenters :: "string \<rightharpoonup> registered"

fun objtype :: "documenter_class \<Rightarrow> string" where
  "objtype Documenter = ''object''"
| "objtype FeatureDocumenter = ''feature''"
| "objtype BackgroundDocumenter = ''background''"
| "objtype ScenarioDocumenter = ''scenario''"
| "objtype RuleDocumenter = ''rule''"
| "objtype StepDocumenter = ''step''"
| "objtype ExamplesDocumenter = ''examples''"

definition content_indent :: string where
  "content_indent = ''    ''"

fun allow_nesting :: "documenter_class \<Rightarrow> bool" where
  "allow_nesting Documenter = False"
| "allow_nesting StepDocumenter = False"
| "allow_nesting _ = True"

definition titles_allowed :: "documenter_class \<Rightarrow> bool" where
  "titles_allowed D = True"

definition format_options :: "documenter_class \<Rightarrow> (string \<times> string) list" where
  "format_options D = []"

definition documented_keyword :: "document \<Rightarrow> keyword \<Rightarrow> documented_keyword" where
  "documented_keyword doc kw = map (\<lambda>k. (keyword k, summary k)) (rev (get_ancestry doc kw))"

text \<open>\<open>add_line\<close> with no \<open>lineno\<close> appends at the \<open>StringList\<close>'s default offset 0.\<close>

definition add_line :: "string \<Rightarrow> string \<Rightarrow> string \<Rightarrow> int \<Rightarrow> gen_state \<Rightarrow> gen_state" where
  "add_line indent ln source offset st =
     (if strip ln \<noteq> [] then st\<lparr>result := result st @ [(indent @ ln, source, offset)]\<rparr>
      else st\<lparr>result := result st @ [([], source, offset)]\<rparr>)"

definition get_sourcename :: "document \<Rightarrow> string" where
  "get_sourcename doc = doc_name doc"

definition get_directive_name :: "documenter_class \<Rightarrow> keyword \<Rightarrow> string" where
  "get_directive_name D kw =
     (if D = StepDocumenter then lower (strip_chars '':'' (strip (keyword kw)))
      else objtype D)"

definition add_directive_header ::
  "env \<Rightarrow> document \<Rightarrow> documenter_class \<Rightarrow> keyword \<Rightarrow> string \<Rightarrow> string \<Rightarrow> gen_state \<Rightarrow> gen_state" where
  "add_directive_header e doc D kw indent sig st =
     (let sourcename = get_sourcename doc;
          st1 = add_line indent
                  (''.. '' @ domain_name e @ '':'' @ get_directive_name D kw @ '':: '' @ sig)
                  sourcename 0 st
      in foldl (\<lambda>s (option_name, v).
                  add_line indent (content_indent @ '':'' @ option_name @ '': '' @ v) sourcename 0 s)
           st1 (format_options D))"

fun get_child_keywords :: "documenter_class \<Rightarrow> keyword \<Rightarrow> exn + keyword list" where
  "get_child_keywords FeatureDocumenter kw = attr_children kw"
| "get_child_keywords BackgroundDocumenter kw = attr_steps kw"
| "get_child_keywords ScenarioDocumenter kw =
     (case attr_steps kw of
        Inl x \<Rightarrow> Inl x
      | Inr ss \<Rightarrow> (case attr_examples kw of Inl x \<Rightarrow> Inl x | Inr es \<Rightarrow> Inr (ss @ es)))"
| "get_child_keywords RuleDocumenter kw = attr_children kw"
| "get_child_keywords _ kw = Inr []"

text \<open>\<open>Documenter.add_content\<close>, which the subclasses call last.\<close>

definition base_add_content :: "string \<Rightarrow> line list option \<Rightarrow> gen_state \<Rightarrow> gen_state" where
  "base_add_content indent more_content st =
     (case more_content of
        None \<Rightarrow> st
      | Some ls \<Rightarrow> foldl (\<lambda>s (ln, src, off). add_line indent ln src off s) st ls)"

fun format_cells :: "string \<Rightarrow> string \<Rightarrow> bool \<Rightarrow> string list \<Rightarrow> gen_state \<Rightarrow> gen_state" where
  "format_cells indent sourcename first [] st = st"
| "format_cells indent sourcename first (cell # cells) st =
     (if first then
        format_cells indent sourcename False cells
          (add_line indent (content_indent @ ''* - '' @ cell) sourcename 0 st)
      else
        format_cells indent sourcename False cells
          (add_line indent (content_indent @ ''  - '' @ cell) sourcename 0 st))"

text \<open>
  \<open>format_datatable\<close> reads \<open>datatable.values\<close> after the first two lines; with
  \<open>None\<close> for a table that read raises.
\<close>

definition format_datatable ::
  "string \<Rightarrow> document \<Rightarrow> datatable option \<Rightarrow> gen_state \<Rightarrow> gen_state \<times> exn option" where
  "format_datatable indent doc t st =
     (let sourcename = get_sourcename doc;
          st1 = add_line indent ''.. list-table::'' sourcename 0 st;
          st2 = add_line indent '''' sourcename 0 st1
      in case t of
           None \<Rightarrow> (st2, Some (AttributeError ''values''))
         | Some tbl \<Rightarrow>
             (foldl (\<lambda>s row. format_cells indent sourcename True row s) st2 (table_values tbl),
              None))"

definition add_docstring :: "string \<Rightarrow> document \<Rightarrow> docstring option \<Rightarrow> gen_state \<Rightarrow> gen_state" where
  "add_docstring indent doc ds st =
     (let sourcename = get_sourcename doc in
      case ds of
        None \<Rightarrow> st
      | Some d \<Rightarrow>
          (let st1 = add_line indent (''.. code-block:: '' @ mediatype d) sourcename 0 st;
               st2 = add_line indent '''' sourcename 0 st1;
               st3 = foldl (\<lambda>s ln. add_line indent (content_indent @ ln) sourcename 0 s)
                       st2 (splitlines (content d))
           in add_line indent '''' sourcename 0 st3))"

fun add_content ::
  "document \<Rightarrow> documenter_class \<Rightarrow> keyword \<Rightarrow> string \<Rightarrow> line list option \<Rightarrow> gen_state
     \<Rightarrow> gen_state \<times> exn option" where
  "add_content doc FeatureDocumenter kw indent more_content st =
     (case attr_description kw of
        Inl x \<Rightarrow> (st, Some x)
      | Inr d \<Rightarrow>
          (base_add_content indent more_content
             (foldl (\<lambda>s ln. add_line indent (lstrip ln) (get_sourcename doc) 0 s) st (splitlines d)),
           None))"
| "add_content doc StepDocumenter kw indent more_content st =
     (case attr_docstring kw of
        Inl x \<Rightarrow> (st, Some x)
      | Inr ds \<Rightarrow>
          (let st1 = add_docstring indent doc ds st in
           case attr_datatable kw of
             Inl x \<Rightarrow> (st1, Some x)
           | Inr None \<Rightarrow> (base_add_content indent more_content st1, None)
           | Inr (Some t) \<Rightarrow>
               (case format_datatable indent doc (Some t) st1 of
                  (st2, Some x) \<Rightarrow> (st2, Some x)
                | (st2, None) \<Rightarrow>
                    (base_add_content indent more_content
                       (add_line indent '''' (get_sourcename doc) 0 st2), None))))"
| "add_content doc ExamplesDocumenter kw indent more_content st =
     (case attr_datatable kw of
        Inl x \<Rightarrow> (st, Some x)
      | Inr t \<Rightarrow>
          (case format_datatable indent doc t st of
             (st2, Some x) \<Rightarrow> (st2, Some x)
           | (st2, None) \<Rightarrow>
               (base_add_content indent more_content
                  (add_line indent '''' (get_sourcename doc) 0 st2), None)))"
| "add_content doc _ kw indent more_content st =
     (base_add_content indent more_content st, None)"

section \<open>Generation\<close>

function generate ::
    "env \<Rightarrow> document \<Rightarrow> documenter_class \<Rightarrow> keyword \<Rightarrow> string \<Rightarrow> line list option \<Rightarrow> gen_state
       \<Rightarrow> gen_state \<times> exn option"
  and document_members ::
    "env \<Rightarrow> document \<Rightarrow> documenter_class \<Rightarrow> keyword \<Rightarrow> string \<Rightarrow> gen_state
       \<Rightarrow> gen_state \<times> exn option"
  and document_children ::
    "env \<Rightarrow> document \<Rightarrow> string \<Rightarrow> keyword list \<Rightarrow> gen_state \<Rightarrow> gen_state \<times> exn option"
where
  "generate e doc D kw indent more_content st =
     (let st1 = st\<lparr>record_dependencies := insert (doc_name doc) (record_dependencies st)\<rparr>;
          sourcename = get_sourcename doc;
          st2 = add_directive_header e doc D kw indent (summary kw) st1;
          st3 = add_line indent '''' sourcename 0 st2;
          indent' = indent @ content_indent;
          st4 = st3\<lparr>ref_context :=
                      (ref_context st3)(domain_name e @ '':scope'' \<mapsto> documented_keyword doc kw)\<rparr>
      in case add_content doc D kw indent' more_content st4 of
           (st5, Some x) \<Rightarrow> (st5, Some x)
         | (st5, None) \<Rightarrow>
             document_members e doc D kw indent' (add_line indent' '''' sourcename 0 st5))"
| "document_members e doc D kw indent st =
     (case get_child_keywords D kw of
        Inl x \<Rightarrow> (st, Some x)
      | Inr cs \<Rightarrow> document_children e doc indent cs st)"
| "document_children e doc indent [] st = (st, None)"
| "document_children e doc indent (child # rest) st =
     (let objtype = objtype_for_keyword_class e (class_of child) in
      case documenters e objtype of
        None \<Rightarrow> (st, Some (KeyError objtype))
      | Some OtherClass \<Rightarrow> (st, Some (SphinxGherkinError objtype))
      | Some (DocumenterSubclass D) \<Rightarrow>
          (case generate e doc D child indent None st of
             (st', Some x) \<Rightarrow> (st', Some x)
           | (st', None) \<Rightarrow> document_children e doc indent rest st'))"
  by pat_completeness auto
termination
  apply (relation "measure (\<lambda>a. case a of
                     Inl (e, doc, D, kw, indent, mc, st) \<Rightarrow> 3 * size kw + 3
                   | Inr (Inl (e, doc, D, kw, indent, st)) \<Rightarrow> 3 * size kw + 2
                   | Inr (Inr (e, doc, indent, cs, st)) \<Rightarrow> 3 * size_list size cs + 1)")
      apply simp_all
  subgoal for D kw cs
    by (cases D; cases kw) (auto split: sum.splits)
  done

section \<open>Option validation\<close>

text \<open>
  A directive's raw options are the items of a dict: option names with the text
  given for them, \<open>None\<close> when there is none. A converted value is \<open>None\<close> or text.
\<close>

datatype pyval = PyNone | PyStr string

type_synonym convertor = "string option \<Rightarrow> exn + pyval"

type_synonym option_spec = "(string \<times> convertor option) list"

text \<open>
  \<open>docutils.parsers.rst.directives.flag\<close>: no argument is allowed; anything but
  blank text raises \<open>ValueError\<close>.
\<close>

definition flag :: convertor where
  "flag argument =
     (case argument of
        None \<Rightarrow> Inr PyNone
      | Some a \<Rightarrow> if a \<noteq> [] \<and> strip a \<noteq> [] then Inl (ValueError a) else Inr PyNone)"

text \<open>Every documenter class inherits \<open>Documenter.option_spec\<close>.\<close>

definition option_spec :: "documenter_class \<Rightarrow> option_spec" where
  "option_spec D = [(''noindex'', Some flag)]"

text \<open>
  \<open>docutils.utils.assemble_option_dict\<close>: \<open>KeyError\<close> for an unknown or disabled
  option name, \<open>DuplicateOptionError\<close> for a repeated one, and the convertor's
  \<open>ValueError\<close> or \<open>TypeError\<close> raised again in its own class, with the option's name
  put before the message.
\<close>

fun assemble_from ::
  "(string \<times> pyval) list \<Rightarrow> (string \<times> string option) list \<Rightarrow> option_spec
     \<Rightarrow> exn + (string \<times> pyval) list" where
  "assemble_from acc [] spec = Inr acc"
| "assemble_from acc ((name, v) # rest) spec =
     (case map_of spec name of
        None \<Rightarrow> Inl (KeyError name)
      | Some None \<Rightarrow> Inl (KeyError name)
      | Some (Some convertor) \<Rightarrow>
          if name \<in> set (map fst acc) then Inl (DuplicateOptionError name)
          else (case convertor v of
                  Inl (ValueError m) \<Rightarrow> Inl (ValueError (name @ '': '' @ m))
                | Inl (TypeError m) \<Rightarrow> Inl (TypeError (name @ '': '' @ m))
                | Inl x \<Rightarrow> Inl x
                | Inr c \<Rightarrow> assemble_from (acc @ [(name, c)]) rest spec))"

definition assemble_option_dict ::
  "(string \<times> string option) list \<Rightarrow> option_spec \<Rightarrow> exn + (string \<times> pyval) list" where
  "assemble_option_dict option_list spec = assemble_from [] option_list spec"

section \<open>Directives\<close>

datatype directive_class =
    AutoKeywordDescription
  | AutoFeatureDescription
  | AutoRuleDescription
  | AutoBackgroundDescription
  | AutoScenarioDescription
  | AutoExamplesDescription
  | AutoStepDescription
  | AutoScenarioOutlineDescription

text \<open>
  A directive invocation. It has exactly one argument (\<open>required_arguments = 1\<close>,
  \<open>optional_arguments = 0\<close>), kept here as \<open>argument\<close>.
\<close>

record directive =
  dir_class :: directive_class
  dir_name :: string
  argument :: string
  options :: "(string \<times> string option) list"
  dir_content :: "line list"
  lineno :: int
  block_text :: string

text \<open>The nodes that the host builds from the generated lines.\<close>

typedecl node

text \<open>
  What a directive finds around it. \<open>keyword_to_objtype\<close>, \<open>get_name\<close>,
  \<open>find_one\<close> and \<open>get_config_gherkin_sources\<close> are declared in other modules of
  the package; \<open>joinpath\<close>, the reporter and \<open>parse_generated_content\<close> belong to the
  host. \<open>get_config_gherkin_sources\<close> is what that call gives in this environment:
  the configured source roots in their order, or the exception that the call raises,
  which is \<open>SphinxGherkinError\<close> when no root is configured. A reporter without
  \<open>get_source_and_line\<close> is \<open>None\<close>.
\<close>

record app =
  gen_env :: env
  docname :: string
  keyword_to_objtype :: "string \<Rightarrow> string"
  get_name :: "string \<Rightarrow> string"
  find_one :: "string \<Rightarrow> exn + document \<times> keyword"
  documents :: "string \<rightharpoonup> document"
  get_config_gherkin_sources :: "exn + string list"
  joinpath :: "string \<Rightarrow> string \<Rightarrow> string"
  reporter_get_source_and_line :: "(int \<Rightarrow> string option \<times> int option) option"
  parse_generated_content :: "line list \<Rightarrow> documenter_class \<Rightarrow> node list"

datatype log_record =
    Debug_input "string option" "int option" string
  | Debug_output "string list"
  | Error_invalid_option string exn "string \<times> int option"

text \<open>
  What \<open>run\<close> writes to: the log, the build environment's \<open>ref_context\<close> and the
  document settings' \<open>record_dependencies\<close>.
\<close>

record world =
  w_log :: "log_record list"
  w_ref_context :: "string \<rightharpoonup> documented_keyword"
  w_record_dependencies :: "string set"

definition directive_keyword :: "directive \<Rightarrow> string" where
  "directive_keyword d =
     (if dir_class d = AutoScenarioOutlineDescription then ''Scenario Outline''
      else
        (let name = dir_name d;
             directivename = (if CHR '':'' \<in> set (drop 4 name) then snd (split_once CHR '':'' name)
                              else name)
         in title (drop 4 directivename)))"

definition get_source_and_line :: "app \<Rightarrow> directive \<Rightarrow> int option \<times> string option" where
  "get_source_and_line a d =
     (case reporter_get_source_and_line a of
        None \<Rightarrow> (None, None)
      | Some f \<Rightarrow> (let (source, ln) = f (lineno d) in (ln, source)))"

definition base_get_gherkin_definition :: "app \<Rightarrow> directive \<Rightarrow> exn + document \<times> keyword" where
  "base_get_gherkin_definition a d = find_one a (get_name a (argument d))"

text \<open>The loop over the configured roots; \<open>None\<close> when it ends without a match.\<close>

fun feature_by_path :: "app \<Rightarrow> string \<Rightarrow> string list \<Rightarrow> (document \<times> keyword) option" where
  "feature_by_path a sig [] = None"
| "feature_by_path a sig (path # paths) =
     (let candidate = joinpath a path sig in
      case documents a candidate of
        Some document \<Rightarrow> Some (document, doc_feature document)
      | None \<Rightarrow> feature_by_path a sig paths)"

text \<open>
  \<open>get_gherkin_definition\<close>. For a feature directive the call of
  \<open>get_config_gherkin_sources\<close> and the loop are inside the \<open>try\<close>, whose handler
  catches \<open>KeyError\<close> only: a \<open>KeyError\<close>, also the one raised when the loop ends
  without a match, leads to the default lookup, and any other exception leaves the
  directive as it is.
\<close>

definition get_gherkin_definition :: "app \<Rightarrow> directive \<Rightarrow> exn + document \<times> keyword" where
  "get_gherkin_definition a d =
     (if dir_class d = AutoFeatureDescription then
        (case get_config_gherkin_sources a of
           Inl (KeyError m) \<Rightarrow> base_get_gherkin_definition a d
         | Inl x \<Rightarrow> Inl x
         | Inr paths \<Rightarrow>
             (case feature_by_path a (argument d) paths of
                Some found \<Rightarrow> Inr found
              | None \<Rightarrow> base_get_gherkin_definition a d))
      else base_get_gherkin_definition a d)"

definition caught_by_run :: "exn \<Rightarrow> bool" where
  "caught_by_run x = (case x of KeyError _ \<Rightarrow> True | ValueError _ \<Rightarrow> True | TypeError _ \<Rightarrow> True
                      | _ \<Rightarrow> False)"

text \<open>
  \<open>run\<close>. The bridge starts with an empty \<open>result\<close> and no dependencies; the
  validated options go to the bridge and are not read again in this module. A
  registry entry that is no \<open>Documenter\<close> is outside what \<open>run\<close> is typed for (its
  \<open>cast\<close>), and the model stops there with \<open>NotADocumenter\<close>.
\<close>

definition run :: "app \<Rightarrow> directive \<Rightarrow> world \<Rightarrow> world \<times> (exn + node list)" where
  "run a d w =
     (let (ln, source) = get_source_and_line a d;
          w1 = w\<lparr>w_log := w_log w @ [Debug_input source ln (block_text d)]\<rparr>;
          objtype = keyword_to_objtype a (directive_keyword d)
      in case documenters (gen_env a) objtype of
           None \<Rightarrow> (w1, Inl (KeyError objtype))
         | Some OtherClass \<Rightarrow> (w1, Inl (NotADocumenter objtype))
         | Some (DocumenterSubclass documenter_class) \<Rightarrow>
             (case assemble_option_dict (options d) (option_spec documenter_class) of
                Inl x \<Rightarrow>
                  if caught_by_run x then
                    (w1\<lparr>w_log := w_log w1 @ [Error_invalid_option (dir_name d) x (docname a, ln)]\<rparr>,
                     Inr [])
                  else (w1, Inl x)
              | Inr documenter_options \<Rightarrow>
                  (case get_gherkin_definition a d of
                     Inl x \<Rightarrow> (w1, Inl x)
                   | Inr (document, kw) \<Rightarrow>
                       (let bridge = \<lparr>result = [], record_dependencies = {},
                                      ref_context = w_ref_context w1\<rparr>
                        in case generate (gen_env a) document documenter_class kw []
                                  (Some (dir_content d)) bridge of
                             (st, Some x) \<Rightarrow> (w1\<lparr>w_ref_context := ref_context st\<rparr>, Inl x)
                           | (st, None) \<Rightarrow>
                               (let w2 = w1\<lparr>w_ref_context := ref_context st\<rparr> in
                                if result st = [] then (w2, Inr [])
                                else
                                  (w2\<lparr>w_log := w_log w2 @ [Debug_output (map fst (result st))],
                                      w_record_dependencies :=
                                        w_record_dependencies w2 \<union> record_dependencies st\<rparr>,
                                   Inr (parse_generated_content a (result st) documenter_class)))))))"

section \<open>Notions used in the statements\<close>

text \<open>
  The capital letters among the code points U+0000 to U+00FF, by code point: A to Z,
  U+00C0 to U+00D6 and U+00D8 to U+00DE. The small letter of a capital one lies 32
  code points further.
\<close>

definition capital_letter :: "char \<Rightarrow> bool" where
  "capital_letter c =
     (let n = (of_char c :: nat)
      in 65 \<le> n \<and> n \<le> 90 \<or> 192 \<le> n \<and> n \<le> 214 \<or> 216 \<le> n \<and> n \<le> 222)"

definition small_of :: "char \<Rightarrow> char" where
  "small_of c = char_of ((of_char c :: nat) + 32)"

text \<open>The text that \<open>add_line\<close> appends for a line: blank lines lose their indentation.\<close>

definition line_text :: "string \<Rightarrow> string \<Rightarrow> string" where
  "line_text indent ln = (if strip ln \<noteq> [] then indent @ ln else [])"

text \<open>Appending lines to the bridge's result and nothing else.\<close>

definition emit :: "line list \<Rightarrow> gen_state \<Rightarrow> gen_state" where
  "emit ls st = st\<lparr>result := result st @ ls\<rparr>"

text \<open>The lines of one table row, of the supplementary content, of a docstring, of a table.\<close>

fun cell_lines :: "string \<Rightarrow> string \<Rightarrow> bool \<Rightarrow> string list \<Rightarrow> line list" where
  "cell_lines i src first [] = []"
| "cell_lines i src first (c # cs) =
     (i @ content_indent @ (if first then ''* - '' else ''  - '') @ c, src, 0)
       # cell_lines i src False cs"

definition more_lines :: "string \<Rightarrow> line list option \<Rightarrow> line list" where
  "more_lines indent more_content =
     (case more_content of
        None \<Rightarrow> []
      | Some ls \<Rightarrow> map (\<lambda>(ln, src, off). (line_text indent ln, src, off)) ls)"

definition docstring_lines :: "string \<Rightarrow> string \<Rightarrow> docstring option \<Rightarrow> line list" where
  "docstring_lines indent src ds =
     (case ds of
        None \<Rightarrow> []
      | Some d \<Rightarrow>
          [(indent @ ''.. code-block:: '' @ mediatype d, src, 0), ([], src, 0)]
          @ map (\<lambda>ln. (line_text indent (content_indent @ ln), src, 0)) (splitlines (content d))
          @ [([], src, 0)])"

definition datatable_lines :: "string \<Rightarrow> string \<Rightarrow> datatable \<Rightarrow> line list" where
  "datatable_lines indent src t =
     [(indent @ ''.. list-table::'', src, 0), ([], src, 0)]
     @ concat (map (cell_lines indent src True) (table_values t))"

text \<open>The directive header of a node, without its indentation.\<close>

definition header_text :: "env \<Rightarrow> documenter_class \<Rightarrow> keyword \<Rightarrow> string" where
  "header_text e D kw =
     ''.. '' @ domain_name e @ '':'' @ get_directive_name D kw @ '':: '' @ summary kw"

text \<open>
  The first part of \<open>generate\<close>, up to and including the assignment to \<open>ref_context\<close>:
  the state in which \<open>add_content\<close> starts.
\<close>

definition header_and_scope ::
  "env \<Rightarrow> document \<Rightarrow> documenter_class \<Rightarrow> keyword \<Rightarrow> string \<Rightarrow> gen_state \<Rightarrow> gen_state" where
  "header_and_scope e doc D kw indent st =
     (let st1 = st\<lparr>record_dependencies := insert (doc_name doc) (record_dependencies st)\<rparr>;
          st2 = add_directive_header e doc D kw indent (summary kw) st1;
          st3 = add_line indent '''' (get_sourcename doc) 0 st2
      in st3\<lparr>ref_context :=
               (ref_context st3)(domain_name e @ '':scope'' \<mapsto> documented_keyword doc kw)\<rparr>)"

text \<open>A line is blank or starts with the given indentation.\<close>

definition indented :: "string \<Rightarrow> line \<Rightarrow> bool" where
  "indented indent l = (fst l = [] \<or> prefix indent (fst l))"

text \<open>
  The lines that a documenter appends, read off a bridge that starts empty; they do not
  depend on the state it starts from (\<open>generate_frame\<close> below).
\<close>

definition empty_bridge :: gen_state where
  "empty_bridge = \<lparr>result = [], record_dependencies = {}, ref_context = Map.empty\<rparr>"

definition generated_lines ::
  "env \<Rightarrow> document \<Rightarrow> documenter_class \<Rightarrow> keyword \<Rightarrow> string \<Rightarrow> line list option \<Rightarrow> line list" where
  "generated_lines e doc D kw indent more_content =
     result (fst (generate e doc D kw indent more_content empty_bridge))"

definition content_lines ::
  "document \<Rightarrow> documenter_class \<Rightarrow> keyword \<Rightarrow> string \<Rightarrow> line list option \<Rightarrow> line list" where
  "content_lines doc D kw indent more_content =
     result (fst (add_content doc D kw indent more_content empty_bridge))"

text \<open>The documenter class that \<open>document_members\<close> finds for a child, if it finds one.\<close>

definition child_documenter :: "env \<Rightarrow> keyword \<Rightarrow> documenter_class option" where
  "child_documenter e c =
     (case documenters e (objtype_for_keyword_class e (class_of c)) of
        Some (DocumenterSubclass D) \<Rightarrow> Some D
      | _ \<Rightarrow> None)"

definition child_lines :: "env \<Rightarrow> document \<Rightarrow> string \<Rightarrow> keyword \<Rightarrow> line list" where
  "child_lines e doc indent c =
     (case child_documenter e c of
        None \<Rightarrow> []
      | Some D \<Rightarrow> generated_lines e doc D c indent None)"

text \<open>
  The recursive walk: the nodes in the order in which \<open>generate\<close> is called on them,
  the node itself first, then the walk of each child keyword in turn.
\<close>

function walk :: "env \<Rightarrow> documenter_class \<Rightarrow> keyword \<Rightarrow> keyword list" where
  "walk e D kw =
     kw # (case get_child_keywords D kw of
             Inl x \<Rightarrow> []
           | Inr cs \<Rightarrow>
               concat (map (\<lambda>c. case child_documenter e c of
                                   None \<Rightarrow> []
                                 | Some D' \<Rightarrow> walk e D' c) cs))"
  by pat_completeness auto
termination
proof (relation "measure (\<lambda>(e, D, kw). size kw)")
  show "wf (measure (\<lambda>(e :: env, D :: documenter_class, kw :: keyword). size kw))"
    by simp
next
  fix e :: env and D D' :: documenter_class and kw c :: keyword and cs :: "keyword list"
  assume g: "get_child_keywords D kw = Inr cs" and c: "c \<in> set cs"
  have "size_list size cs \<le> size kw"
    using g by (cases D; cases kw) (auto split: sum.splits)
  moreover have "size c < size_list size cs"
    using c by (induction cs) auto
  ultimately show "((e, D', c), (e, D, kw)) \<in> measure (\<lambda>(e, D, kw). size kw)"
    by simp
qed

definition walk_child :: "env \<Rightarrow> keyword \<Rightarrow> keyword list" where
  "walk_child e c = (case child_documenter e c of None \<Rightarrow> [] | Some D' \<Rightarrow> walk e D' c)"

text \<open>
  An option that \<open>assemble_option_dict\<close> rejects: its name is not in the option
  specification, or is disabled there, or its convertor raises on the value.
\<close>

definition invalid_option :: "option_spec \<Rightarrow> string \<times> string option \<Rightarrow> bool" where
  "invalid_option spec nv =
     (case map_of spec (fst nv) of
        None \<Rightarrow> True
      | Some None \<Rightarrow> True
      | Some (Some convertor) \<Rightarrow> isl (convertor (snd nv)))"

section \<open>An example document and an example application\<close>

definition example_env :: env where
  "example_env =
     \<lparr>domain_name = ''gherkin'',
      objtype_for_keyword_class =
        (\<lambda>c. case c of
               FeatureClass \<Rightarrow> ''feature'' | RuleClass \<Rightarrow> ''rule''
             | BackgroundClass \<Rightarrow> ''background'' | ScenarioClass \<Rightarrow> ''scenario''
             | StepClass \<Rightarrow> ''step'' | ExamplesClass \<Rightarrow> ''examples''),
      documenters =
        [''feature'' \<mapsto> DocumenterSubclass FeatureDocumenter,
         ''rule'' \<mapsto> DocumenterSubclass RuleDocumenter,
         ''background'' \<mapsto> DocumenterSubclass BackgroundDocumenter,
         ''scenario'' \<mapsto> DocumenterSubclass ScenarioDocumenter,
         ''step'' \<mapsto> DocumenterSubclass StepDocumenter,
         ''examples'' \<mapsto> DocumenterSubclass ExamplesDocumenter]\<rparr>"

definition example_step :: keyword where
  "example_step =
     Step ''Given '' ''a user'' (Some (Docstring ''json'' ''{}''))
       (Some (DataTable [[''a'', ''b''], [''c'', ''d'']]))"

definition example_examples :: keyword where
  "example_examples = Examples ''Examples'' ''names'' (DataTable [[''x'']])"

definition example_scenario :: keyword where
  "example_scenario = Scenario ''Scenario'' ''Login'' [example_step] [example_examples]"

definition example_rule :: keyword where
  "example_rule = Rule ''Rule'' ''Access'' [example_scenario]"

definition example_feature :: keyword where
  "example_feature = Feature ''Feature'' ''Auth'' ''Users sign in.'' [example_rule]"

definition example_ancestry :: "keyword \<Rightarrow> keyword list" where
  "example_ancestry k =
     (if k = example_step then [example_step, example_scenario, example_rule, example_feature]
      else if k = example_examples then
        [example_examples, example_scenario, example_rule, example_feature]
      else if k = example_scenario then [example_scenario, example_rule, example_feature]
      else if k = example_rule then [example_rule, example_feature]
      else [k])"

definition example_doc :: document where
  "example_doc =
     \<lparr>doc_name = ''/docs/features/login.feature'', doc_feature = example_feature,
      get_ancestry = example_ancestry\<rparr>"

text \<open>
  An application with one source root and one document; its store resolves no
  reference by name.
\<close>

definition example_app :: app where
  "example_app =
     \<lparr>gen_env = example_env,
      docname = ''index'',
      keyword_to_objtype = (\<lambda>k. lower (filter (\<lambda>c. c \<noteq> CHR '' '') k)),
      get_name = (\<lambda>s. s),
      find_one = (\<lambda>r. Inl (NotFound r)),
      documents = [''/docs/features/login.feature'' \<mapsto> example_doc],
      get_config_gherkin_sources = Inr [''/docs/features''],
      joinpath = (\<lambda>root s. root @ ''/'' @ s),
      reporter_get_source_and_line = Some (\<lambda>n. (Some ''index.rst'', Some n)),
      parse_generated_content = (\<lambda>ls D. [])\<rparr>"

text \<open>The same application with no documenter registered for rules.\<close>

definition example_app_without_rule :: app where
  "example_app_without_rule =
     example_app\<lparr>gen_env :=
       example_env\<lparr>documenters := (documenters example_env)(''rule'' := None)\<rparr>\<rparr>"

text \<open>
  A step of a French feature file, whose keyword is written with a colon on each
  side and a space at the end: \<open>:\<close>, U+00C9, \<open>tant donn\<close>, U+00E9, \<open>:\<close>, space.
\<close>

definition example_localized_step :: keyword where
  "example_localized_step =
     Step (CHR '':'' # CHR 0xC9 # ''tant donn'' @ [CHR 0xE9] @ '': '') ''un utilisateur'' None None"

text \<open>
  The same application with no source root configured, so that asking for the roots
  raises; its store knows the feature by its name \<open>Auth\<close>.
\<close>

definition example_app_without_roots :: app where
  "example_app_without_roots =
     example_app\<lparr>find_one :=
         (\<lambda>r. if r = ''Auth'' then Inr (example_doc, example_feature) else Inl (NotFound r)),
       get_config_gherkin_sources := Inl (SphinxGherkinError ''gherkin_sources'')\<rparr>"

definition example_named_directive :: directive where
  "example_named_directive =
     \<lparr>dir_class = AutoFeatureDescription,
      dir_name = ''gherkin:autofeature'',
      argument = ''Auth'',
      options = [],
      dir_content = [],
      lineno = 3,
      block_text = ''.. gherkin:autofeature:: Auth''\<rparr>"

definition example_directive :: directive where
  "example_directive =
     \<lparr>dir_class = AutoFeatureDescription,
      dir_name = ''gherkin:autofeature'',
      argument = ''login.feature'',
      options = [],
      dir_content = [],
      lineno = 7,
      block_text = ''.. gherkin:autofeature:: login.feature''\<rparr>"

definition example_rule_directive :: directive where
  "example_rule_directive =
     \<lparr>dir_class = AutoRuleDescription,
      dir_name = ''gherkin:autorule'',
      argument = ''Auth.Access'',
      options = [],
      dir_content = [],
      lineno = 12,
      block_text = ''.. gherkin:autorule:: Auth.Access''\<rparr>"

definition example_world :: world where
  "example_world = \<lparr>w_log = [], w_ref_context = Map.empty, w_record_dependencies = {}\<rparr>"

section \<open>What the string functions do\<close>

lemma dropWhile_ends:
  "\<exists>l r. s = l @ rev (dropWhile P (rev (dropWhile P s))) @ r
         \<and> list_all P l \<and> list_all P r"
proof -
  let ?m = "dropWhile P s"
  have 1: "s = takeWhile P s @ ?m"
    by simp
  have "rev (dropWhile P (rev ?m)) @ rev (takeWhile P (rev ?m))
          = rev (takeWhile P (rev ?m) @ dropWhile P (rev ?m))"
    by (simp only: rev_append)
  also have "\<dots> = ?m"
    by (simp only: takeWhile_dropWhile_id rev_rev_ident)
  finally have 2: "?m = rev (dropWhile P (rev ?m)) @ rev (takeWhile P (rev ?m))"
    by (rule sym)
  have 3: "list_all P (takeWhile P s)"
    by (auto simp: list_all_iff dest: set_takeWhileD)
  have 4: "list_all P (rev (takeWhile P (rev ?m)))"
    by (auto simp: list_all_iff dest: set_takeWhileD)
  have "s = takeWhile P s @ rev (dropWhile P (rev ?m)) @ rev (takeWhile P (rev ?m))"
    using 1 2 by simp
  with 3 4 show ?thesis
    by blast
qed

lemma dropWhile_core:
  assumes "rev (dropWhile P (rev (dropWhile P s))) \<noteq> []"
  shows "\<not> P (hd (rev (dropWhile P (rev (dropWhile P s)))))
       \<and> \<not> P (last (rev (dropWhile P (rev (dropWhile P s)))))"
proof -
  let ?m = "dropWhile P s"
  let ?k = "dropWhile P (rev ?m)"
  have k: "?k \<noteq> []"
    using assms by simp
  then have a: "\<not> P (hd ?k)"
    by (rule hd_dropWhile)
  have m: "?m \<noteq> []"
  proof
    assume "?m = []"
    then have "?k = []"
      by (simp only: rev.simps dropWhile.simps)
    with k show False
      by (rule notE)
  qed
  then have b: "\<not> P (hd ?m)"
    by (rule hd_dropWhile)
  have "rev ?k @ rev (takeWhile P (rev ?m)) = rev (takeWhile P (rev ?m) @ ?k)"
    by (simp only: rev_append)
  also have "\<dots> = ?m"
    by (simp only: takeWhile_dropWhile_id rev_rev_ident)
  finally have "?m = rev ?k @ rev (takeWhile P (rev ?m))"
    by (rule sym)
  then have "hd ?m = hd (rev ?k @ rev (takeWhile P (rev ?m)))"
    by (rule arg_cong)
  then have "hd ?m = hd (rev ?k)"
    using k by simp
  with b have "\<not> P (hd (rev ?k))"
    by simp
  moreover have "last (rev ?k) = hd ?k"
    using k by (simp add: last_rev)
  ultimately show ?thesis
    using a by simp
qed

lemma strip_chars_ends:
  "\<exists>a b. s = replicate a c @ strip_chars [c] s @ replicate b c"
proof -
  obtain l r where s: "s = l @ strip_chars [c] s @ r"
    and l: "list_all (\<lambda>x. x \<in> set [c]) l" and r: "list_all (\<lambda>x. x \<in> set [c]) r"
    unfolding strip_chars_def using dropWhile_ends[of s "\<lambda>x. x \<in> set [c]"] by blast
  have l': "l = replicate (length l) c"
    using l by (induction l) auto
  have r': "r = replicate (length r) c"
    using r by (induction r) auto
  have "s = replicate (length l) c @ strip_chars [c] s @ replicate (length r) c"
    using s l' r' by simp
  then show ?thesis
    by blast
qed

lemma strip_chars_core:
  "strip_chars [c] s \<noteq> [] \<Longrightarrow> hd (strip_chars [c] s) \<noteq> c \<and> last (strip_chars [c] s) \<noteq> c"
  unfolding strip_chars_def using dropWhile_core[of "\<lambda>x. x \<in> set [c]" s] by simp

lemma strip_ends:
  "\<exists>l r. s = l @ strip s @ r \<and> list_all isspace l \<and> list_all isspace r"
  unfolding strip_def lstrip_def rstrip_def by (rule dropWhile_ends)

lemma strip_core:
  "strip s \<noteq> [] \<Longrightarrow> \<not> isspace (hd (strip s)) \<and> \<not> isspace (last (strip s))"
  unfolding strip_def lstrip_def rstrip_def by (rule dropWhile_core)

lemma capital_letter_table:
  "c \<in> set (ascii_uppercase @ latin1_uppercase) \<Longrightarrow> capital_letter c"
  unfolding ascii_uppercase_def latin1_uppercase_def append.simps list.set
  by (elim insertE emptyE) (simp_all add: capital_letter_def)

lemma table_capital_letter:
  assumes "capital_letter c"
  shows "c \<in> set (ascii_uppercase @ latin1_uppercase)"
proof -
  define n where "n = (of_char c :: nat)"
  have t: "map of_char (ascii_uppercase @ latin1_uppercase)
             = [65..<91] @ [192..<215] @ [216..<223 :: nat]"
    by (simp add: ascii_uppercase_def latin1_uppercase_def)
  have "65 \<le> n \<and> n \<le> 90 \<or> 192 \<le> n \<and> n \<le> 214 \<or> 216 \<le> n \<and> n \<le> 222"
    using assms by (simp add: capital_letter_def n_def Let_def)
  then have "65 \<le> n \<and> n < 91 \<or> 192 \<le> n \<and> n < 215 \<or> 216 \<le> n \<and> n < 223"
    by arith
  then have "n \<in> set ([65..<91] @ [192..<215] @ [216..<223])"
    by (simp only: set_append set_upt atLeastLessThan_iff Un_iff)
  then have "n \<in> of_char ` set (ascii_uppercase @ latin1_uppercase)"
    by (simp only: t[symmetric] set_map)
  then obtain d where d: "d \<in> set (ascii_uppercase @ latin1_uppercase)"
    and "n = of_char d"
    by (rule imageE)
  then have "d = c"
    by (simp add: n_def)
  with d show ?thesis
    by simp
qed

lemma capital_letter_iff:
  "capital_letter c \<longleftrightarrow> c \<in> set (ascii_uppercase @ latin1_uppercase)"
  using capital_letter_table table_capital_letter by blast

lemma char_lower_table:
  "c \<in> set (ascii_uppercase @ latin1_uppercase) \<Longrightarrow> char_lower c = small_of c"
  unfolding ascii_uppercase_def latin1_uppercase_def append.simps list.set
  by (elim insertE emptyE)
     (simp_all add: char_lower_def small_of_def char_of_def bit_0 ascii_uppercase_def
        latin1_uppercase_def ascii_lowercase_def latin1_lowercase_def)

lemma char_lower_other:
  assumes "c \<notin> set (ascii_uppercase @ latin1_uppercase)"
  shows "char_lower c = c"
proof -
  have "length (ascii_uppercase @ latin1_uppercase) = length (ascii_lowercase @ latin1_lowercase)"
    by (simp add: ascii_uppercase_def latin1_uppercase_def ascii_lowercase_def
          latin1_lowercase_def)
  then have "map_of (zip (ascii_uppercase @ latin1_uppercase)
                         (ascii_lowercase @ latin1_lowercase)) c = None"
    using assms by (rule map_of_zip_is_None[THEN iffD2])
  then show ?thesis
    by (simp only: char_lower_def option.case)
qed

lemma char_lower_capital:
  "char_lower c = (if capital_letter c then small_of c else c)"
  using char_lower_table[of c] char_lower_other[of c] capital_letter_iff[of c] by simp

lemma small_not_capital:
  assumes "capital_letter c"
  shows "\<not> capital_letter (small_of c)"
proof -
  define n where "n = (of_char c :: nat)"
  have r: "65 \<le> n \<and> n \<le> 90 \<or> 192 \<le> n \<and> n \<le> 214 \<or> 216 \<le> n \<and> n \<le> 222"
    using assms by (simp add: capital_letter_def n_def Let_def)
  then have "n + 32 < 256"
    by arith
  then have "(n + 32) mod 256 = n + 32"
    by (rule mod_less)
  then have e: "(of_char (small_of c) :: nat) = n + 32"
    by (simp only: small_of_def of_char_of n_def)
  have "\<not> (65 \<le> n + 32 \<and> n + 32 \<le> 90 \<or> 192 \<le> n + 32 \<and> n + 32 \<le> 214
           \<or> 216 \<le> n + 32 \<and> n + 32 \<le> 222)"
    using r by arith
  then show ?thesis
    unfolding capital_letter_def Let_def e .
qed

lemma lower_capital:
  "lower s = map (\<lambda>c. if capital_letter c then small_of c else c) s"
  by (simp add: lower_def char_lower_capital)

lemma lower_has_no_capital:
  "list_all (\<lambda>c. \<not> capital_letter c) (lower s)"
proof -
  have "\<not> capital_letter (char_lower c)" for c
    by (simp add: char_lower_capital small_not_capital)
  then show ?thesis
    by (simp add: lower_def list_all_iff)
qed

section \<open>What the formatters append\<close>

lemma emit_emit: "emit b (emit a st) = emit (a @ b) st"
  by (simp add: emit_def)

lemma emit_Nil: "emit [] st = st"
  by (simp add: emit_def)

lemma add_line_emit: "add_line i ln src off st = emit [(line_text i ln, src, off)] st"
  by (simp add: add_line_def emit_def line_text_def)

lemma foldl_emit: "foldl (\<lambda>s x. emit [h x] s) st xs = emit (map h xs) st"
  by (induction xs arbitrary: st) (simp_all add: emit_Nil emit_emit)

lemma foldl_add_line_emit:
  "foldl (\<lambda>s x. add_line i (g x) src off s) st xs = emit (map (\<lambda>x. (line_text i (g x), src, off)) xs) st"
  by (induction xs arbitrary: st) (simp_all add: emit_Nil add_line_emit emit_emit)

lemma strip_nonempty_iff: "strip s \<noteq> [] \<longleftrightarrow> (\<exists>c \<in> set s. \<not> isspace c)"
proof -
  have a: "dropWhile P xs \<noteq> [] \<longleftrightarrow> (\<exists>x \<in> set xs. \<not> P x)" for P and xs :: string
    by (induction xs) auto
  have b: "(\<exists>x \<in> set (dropWhile P xs). \<not> P x) \<longleftrightarrow> (\<exists>x \<in> set xs. \<not> P x)" for P and xs :: string
    by (induction xs) auto
  show ?thesis
    unfolding strip_def rstrip_def lstrip_def
    by (simp add: a b)
qed

lemma line_text_nonblank: "\<not> isspace c \<Longrightarrow> c \<in> set ln \<Longrightarrow> line_text i ln = i @ ln"
  using strip_nonempty_iff by (auto simp: line_text_def)

lemma line_text_blank: "line_text i [] = []"
  by (simp add: line_text_def strip_def lstrip_def rstrip_def)

lemma format_cells_emit:
  "format_cells i src first cells st = emit (cell_lines i src first cells) st"
proof (induction cells arbitrary: first st)
  case Nil
  show ?case by (simp add: emit_Nil)
next
  case (Cons c cs)
  have s: "line_text i (content_indent @ ''* - '' @ c) = i @ content_indent @ ''* - '' @ c"
    by (rule line_text_nonblank[of "CHR ''*''"]) (simp_all add: isspace_def)
  have t: "line_text i (content_indent @ ''  - '' @ c) = i @ content_indent @ ''  - '' @ c"
    by (rule line_text_nonblank[of "CHR ''-''"]) (simp_all add: isspace_def)
  show ?case
    using s t by (simp add: Cons add_line_emit emit_emit)
qed

lemma format_datatable_emit:
  "format_datatable i doc (Some t) st =
     (emit ([(i @ ''.. list-table::'', get_sourcename doc, 0), ([], get_sourcename doc, 0)]
            @ concat (map (cell_lines i (get_sourcename doc) True) (table_values t))) st, None)"
proof -
  have m: "line_text i ''.. list-table::'' = i @ ''.. list-table::''"
    by (rule line_text_nonblank[of "CHR ''.''"]) (simp_all add: isspace_def)
  have f: "foldl (\<lambda>s row. format_cells i src True row s) s0 rows
           = emit (concat (map (cell_lines i src True) rows)) s0" for src s0 rows
    by (induction rows arbitrary: s0) (simp_all add: emit_Nil format_cells_emit emit_emit)
  show ?thesis
    using m by (simp add: format_datatable_def Let_def add_line_emit line_text_blank f emit_emit)
qed

lemma generate_unfold:
  "generate e doc D kw i mc st =
     (case add_content doc D kw (i @ content_indent) mc (header_and_scope e doc D kw i st) of
        (st5, Some x) \<Rightarrow> (st5, Some x)
      | (st5, None) \<Rightarrow>
          document_members e doc D kw (i @ content_indent)
            (add_line (i @ content_indent) '''' (get_sourcename doc) 0 st5))"
  by (simp add: header_and_scope_def Let_def del: document_members.simps)

declare generate.simps [simp del] document_members.simps [simp del]

lemma header_line_text: "line_text i (header_text e D kw) = i @ header_text e D kw"
  by (rule line_text_nonblank[of "CHR ''.''"]) (simp_all add: isspace_def header_text_def)

lemma header_and_scope_eq:
  "header_and_scope e doc D kw i st =
     st\<lparr>result := result st @ [(i @ header_text e D kw, doc_name doc, 0), ([], doc_name doc, 0)],
        record_dependencies := insert (doc_name doc) (record_dependencies st),
        ref_context := (ref_context st)(domain_name e @ '':scope'' \<mapsto> documented_keyword doc kw)\<rparr>"
  using header_line_text[of i e D kw]
  by (simp add: header_and_scope_def Let_def add_directive_header_def format_options_def
      add_line_emit emit_def line_text_blank get_sourcename_def header_text_def)

lemma base_add_content_emit: "base_add_content i mc st = emit (more_lines i mc) st"
proof (cases mc)
  case None
  then show ?thesis by (simp add: base_add_content_def more_lines_def emit_Nil)
next
  case (Some ls)
  have "foldl (\<lambda>s (ln, src, off). add_line i ln src off s) s0 ls
        = emit (map (\<lambda>(ln, src, off). (line_text i ln, src, off)) ls) s0" for s0
    by (induction ls arbitrary: s0) (auto simp: emit_Nil add_line_emit emit_emit)
  with Some show ?thesis by (simp add: base_add_content_def more_lines_def)
qed

lemma add_docstring_emit:
  "add_docstring i doc ds st = emit (docstring_lines i (get_sourcename doc) ds) st"
proof (cases ds)
  case None
  then show ?thesis by (simp add: add_docstring_def docstring_lines_def emit_Nil)
next
  case (Some d)
  have m: "line_text i (''.. code-block:: '' @ mediatype d) = i @ ''.. code-block:: '' @ mediatype d"
    by (rule line_text_nonblank[of "CHR ''.''"]) (simp_all add: isspace_def)
  show ?thesis
    using m Some
    by (simp add: add_docstring_def docstring_lines_def Let_def add_line_emit emit_emit
        foldl_emit line_text_blank)
qed

lemma format_datatable_Some:
  "format_datatable i doc (Some t) st = (emit (datatable_lines i (get_sourcename doc) t) st, None)"
  by (simp add: format_datatable_emit datatable_lines_def)

lemma format_datatable_None:
  "format_datatable i doc None st =
     (emit [(i @ ''.. list-table::'', get_sourcename doc, 0), ([], get_sourcename doc, 0)] st,
      Some (AttributeError ''values''))"
proof -
  have m: "line_text i ''.. list-table::'' = i @ ''.. list-table::''"
    by (rule line_text_nonblank[of "CHR ''.''"]) (simp_all add: isspace_def)
  show ?thesis
    using m by (simp add: format_datatable_def Let_def add_line_emit line_text_blank emit_emit)
qed

lemma add_content_Step:
  "add_content doc StepDocumenter (Step l s ds dt) i mc st =
     (emit (docstring_lines i (get_sourcename doc) ds
            @ (case dt of None \<Rightarrow> []
               | Some t \<Rightarrow> datatable_lines i (get_sourcename doc) t @ [([], get_sourcename doc, 0)])
            @ more_lines i mc) st, None)"
  by (cases dt)
     (simp_all add: add_docstring_emit format_datatable_Some base_add_content_emit add_line_emit
        line_text_blank emit_emit)

lemma indented_line_text: "indented i (line_text i ln, s, off)"
  by (simp add: indented_def line_text_def)

lemma indented_blank: "indented i ([], s, off)"
  by (simp add: indented_def)

lemma indented_append: "indented i (i @ x, s, off)"
  by (simp add: indented_def)

lemma indented_weaken: "indented (i @ j) l \<Longrightarrow> indented i l"
  by (auto simp: indented_def dest: append_prefixD)

lemma list_all_indented_weaken: "list_all (indented (i @ j)) ls \<Longrightarrow> list_all (indented i) ls"
  by (induction ls) (auto intro: indented_weaken)

lemma indented_more_lines: "list_all (indented i) (more_lines i mc)"
  by (cases mc) (auto simp: more_lines_def list_all_iff indented_line_text)

lemma indented_docstring_lines: "list_all (indented i) (docstring_lines i src ds)"
  by (cases ds) (auto simp: docstring_lines_def list_all_iff indented_line_text indented_blank indented_append)

lemma indented_cell_lines: "list_all (indented i) (cell_lines i src first cells)"
  by (induction cells arbitrary: first) (simp_all add: indented_append)

lemma indented_datatable_lines: "list_all (indented i) (datatable_lines i src t)"
  by (auto simp: datatable_lines_def indented_append indented_blank list_all_iff
      indented_cell_lines[unfolded list_all_iff])

lemma in_more_lines: "l \<in> set (more_lines i mc) \<Longrightarrow> indented i l"
  using indented_more_lines[of i mc] by (simp add: list_all_iff)

lemma in_docstring_lines: "l \<in> set (docstring_lines i src ds) \<Longrightarrow> indented i l"
  using indented_docstring_lines[of i src ds] by (simp add: list_all_iff)

lemma in_datatable_lines: "l \<in> set (datatable_lines i src t) \<Longrightarrow> indented i l"
  using indented_datatable_lines[of i src t] by (simp add: list_all_iff)

lemmas indented_simps = indented_line_text indented_blank indented_append list_all_iff

lemmas indented_dests = in_more_lines in_docstring_lines in_datatable_lines

lemma frameI:
  "\<forall>st. f st = (emit L st, x) \<Longrightarrow> list_all (indented i) L
   \<Longrightarrow> \<exists>L x. (\<forall>st. f st = (emit L st, x)) \<and> list_all (indented i) L"
  by blast

lemma add_content_frame:
  "\<exists>L x. (\<forall>st. add_content doc D kw i mc st = (emit L st, x)) \<and> list_all (indented i) L"
proof (cases D)
  case FeatureDocumenter
  show ?thesis
  proof (cases "attr_description kw")
    case (Inl x)
    with FeatureDocumenter have "\<forall>st. add_content doc D kw i mc st = (emit [] st, Some x)"
      by (simp add: emit_Nil)
    then show ?thesis by (rule frameI) (auto simp: indented_simps dest: indented_dests split: option.splits)
  next
    case (Inr d)
    with FeatureDocumenter have "\<forall>st. add_content doc D kw i mc st =
        (emit (map (\<lambda>ln. (line_text i (lstrip ln), get_sourcename doc, 0)) (splitlines d)
               @ more_lines i mc) st, None)"
      by (simp add: add_line_emit foldl_emit base_add_content_emit emit_emit)
    then show ?thesis by (rule frameI) (auto simp: indented_simps dest: indented_dests split: option.splits)
  qed
next
  case StepDocumenter
  show ?thesis
  proof (cases "attr_docstring kw")
    case (Inl x)
    with StepDocumenter have "\<forall>st. add_content doc D kw i mc st = (emit [] st, Some x)"
      by (simp add: emit_Nil)
    then show ?thesis by (rule frameI) (auto simp: indented_simps dest: indented_dests split: option.splits)
  next
    case (Inr ds)
    show ?thesis
    proof (cases "attr_datatable kw")
      case (Inl x)
      with StepDocumenter Inr have "\<forall>st. add_content doc D kw i mc st =
          (emit (docstring_lines i (get_sourcename doc) ds) st, Some x)"
        by (simp add: add_docstring_emit)
      then show ?thesis by (rule frameI) (auto simp: indented_simps dest: indented_dests split: option.splits)
    next
      case dt: (Inr dt)
      with StepDocumenter Inr have "\<forall>st. add_content doc D kw i mc st =
          (emit (docstring_lines i (get_sourcename doc) ds
            @ (case dt of None \<Rightarrow> []
               | Some t \<Rightarrow> datatable_lines i (get_sourcename doc) t @ [([], get_sourcename doc, 0)])
            @ more_lines i mc) st, None)"
        by (cases dt)
           (simp_all add: add_docstring_emit format_datatable_Some base_add_content_emit
              add_line_emit line_text_blank emit_emit)
      then show ?thesis by (rule frameI) (auto simp: indented_simps dest: indented_dests split: option.splits)
    qed
  qed
next
  case ExamplesDocumenter
  show ?thesis
  proof (cases "attr_datatable kw")
    case (Inl x)
    with ExamplesDocumenter have "\<forall>st. add_content doc D kw i mc st = (emit [] st, Some x)"
      by (simp add: emit_Nil)
    then show ?thesis by (rule frameI) (auto simp: indented_simps dest: indented_dests split: option.splits)
  next
    case (Inr dt)
    show ?thesis
    proof (cases dt)
      case None
      with ExamplesDocumenter Inr have "\<forall>st. add_content doc D kw i mc st =
         (emit [(i @ ''.. list-table::'', get_sourcename doc, 0), ([], get_sourcename doc, 0)] st,
          Some (AttributeError ''values''))"
        by (simp add: format_datatable_None)
      then show ?thesis by (rule frameI) (auto simp: indented_simps dest: indented_dests split: option.splits)
    next
      case (Some t)
      with ExamplesDocumenter Inr have "\<forall>st. add_content doc D kw i mc st =
         (emit (datatable_lines i (get_sourcename doc) t @ [([], get_sourcename doc, 0)]
                @ more_lines i mc) st, None)"
        by (simp add: format_datatable_Some base_add_content_emit add_line_emit line_text_blank
            emit_emit)
      then show ?thesis by (rule frameI) (auto simp: indented_simps dest: indented_dests split: option.splits)
    qed
  qed
next
  case Documenter
  then have "\<forall>st. add_content doc D kw i mc st = (emit (more_lines i mc) st, None)"
    by (simp add: base_add_content_emit)
  then show ?thesis by (rule frameI) (rule indented_more_lines)
next
  case BackgroundDocumenter
  then have "\<forall>st. add_content doc D kw i mc st = (emit (more_lines i mc) st, None)"
    by (simp add: base_add_content_emit)
  then show ?thesis by (rule frameI) (rule indented_more_lines)
next
  case ScenarioDocumenter
  then have "\<forall>st. add_content doc D kw i mc st = (emit (more_lines i mc) st, None)"
    by (simp add: base_add_content_emit)
  then show ?thesis by (rule frameI) (rule indented_more_lines)
next
  case RuleDocumenter
  then have "\<forall>st. add_content doc D kw i mc st = (emit (more_lines i mc) st, None)"
    by (simp add: base_add_content_emit)
  then show ?thesis by (rule frameI) (rule indented_more_lines)
qed

section \<open>What generation appends\<close>

lemma result_emit: "result (emit L st) = result st @ L"
  by (simp add: emit_def)

lemma result_empty_bridge: "result empty_bridge = []"
  by (simp add: empty_bridge_def)

lemma add_content_eq:
  "add_content doc D kw i mc st =
     (emit (content_lines doc D kw i mc) st, snd (add_content doc D kw i mc empty_bridge))"
proof -
  obtain L x where f: "\<forall>st. add_content doc D kw i mc st = (emit L st, x)"
    using add_content_frame[of doc D kw i mc] by blast
  then show ?thesis
    by (simp add: content_lines_def result_emit result_empty_bridge)
qed

lemma add_content_outcome:
  "snd (add_content doc D kw i mc empty_bridge) = x
   \<Longrightarrow> add_content doc D kw i mc st = (emit (content_lines doc D kw i mc) st, x)"
  using add_content_eq[of doc D kw i mc st] by simp

lemma indented_content_lines: "list_all (indented i) (content_lines doc D kw i mc)"
proof -
  obtain L x where f: "\<forall>st. add_content doc D kw i mc st = (emit L st, x)"
    and l: "list_all (indented i) L"
    using add_content_frame[of doc D kw i mc] by blast
  then show ?thesis
    by (simp add: content_lines_def result_emit result_empty_bridge)
qed

lemma children_smaller:
  "get_child_keywords D kw = Inr cs \<Longrightarrow> size_list size cs \<le> size kw"
  by (cases D; cases kw) (auto split: sum.splits)

lemma child_size: "c \<in> set cs \<Longrightarrow> size c < size_list size cs"
  by (induction cs) auto

lemma document_children_frame:
  assumes "\<And>c D st. c \<in> set cs \<Longrightarrow>
             result (fst (generate e doc D c i None st)) = result st @ generated_lines e doc D c i None
           \<and> snd (generate e doc D c i None st) = snd (generate e doc D c i None empty_bridge)
           \<and> list_all (indented i) (generated_lines e doc D c i None)"
  shows "result (fst (document_children e doc i cs st))
           = result st @ result (fst (document_children e doc i cs empty_bridge))
       \<and> snd (document_children e doc i cs st) = snd (document_children e doc i cs empty_bridge)
       \<and> list_all (indented i) (result (fst (document_children e doc i cs empty_bridge)))"
  using assms
proof (induction cs arbitrary: st)
  case Nil
  show ?case by (simp add: result_empty_bridge)
next
  case (Cons c rest)
  show ?case
  proof (cases "documenters e (objtype_for_keyword_class e (class_of c))")
    case None
    then show ?thesis by (simp add: result_empty_bridge)
  next
    case (Some r)
    show ?thesis
    proof (cases r)
      case OtherClass
      with Some show ?thesis by (simp add: result_empty_bridge)
    next
      case (DocumenterSubclass D)
      obtain s0 x0 where e0: "generate e doc D c i None empty_bridge = (s0, x0)"
        by (cases "generate e doc D c i None empty_bridge")
      obtain s1 x1 where e1: "generate e doc D c i None st = (s1, x1)"
        by (cases "generate e doc D c i None st")
      have g: "result s1 = result st @ result s0" "x1 = x0" "list_all (indented i) (result s0)"
        using Cons.prems[of c D st] e0 e1 by (simp_all add: generated_lines_def)
      have ih: "result (fst (document_children e doc i rest s))
                  = result s @ result (fst (document_children e doc i rest empty_bridge))
              \<and> snd (document_children e doc i rest s)
                  = snd (document_children e doc i rest empty_bridge)
              \<and> list_all (indented i) (result (fst (document_children e doc i rest empty_bridge)))"
        for s
        by (rule Cons.IH) (rule Cons.prems, simp)
      show ?thesis
      proof (cases x0)
        case (Some x)
        with \<open>documenters e _ = Some r\<close> DocumenterSubclass e0 e1 g show ?thesis
          by simp
      next
        case None
        have a: "document_children e doc i (c # rest) st = document_children e doc i rest s1"
          using \<open>documenters e _ = Some r\<close> DocumenterSubclass e1 g None by simp
        have b: "document_children e doc i (c # rest) empty_bridge
                   = document_children e doc i rest s0"
          using \<open>documenters e _ = Some r\<close> DocumenterSubclass e0 None by simp
        show ?thesis
          unfolding a b using ih[of s1] ih[of s0] g by simp
      qed
    qed
  qed
qed

lemma generate_frame:
  "result (fst (generate e doc D kw i mc st)) = result st @ generated_lines e doc D kw i mc
 \<and> snd (generate e doc D kw i mc st) = snd (generate e doc D kw i mc empty_bridge)
 \<and> list_all (indented i) (generated_lines e doc D kw i mc)"
proof (induction kw arbitrary: D i mc st rule: measure_induct_rule[where f = size])
  case (less kw)
  let ?i = "i @ content_indent"
  let ?src = "get_sourcename doc"
  define cx where "cx = snd (add_content doc D kw ?i mc empty_bridge)"
  define CL where "CL = content_lines doc D kw ?i mc"
  define pre where "pre = [(i @ header_text e D kw, doc_name doc, 0), ([], doc_name doc, 0)] @ CL"
  have ac: "add_content doc D kw ?i mc s = (emit CL s, cx)" for s
    unfolding CL_def cx_def by (rule add_content_eq)
  have rH: "result (header_and_scope e doc D kw i s) @ CL = result s @ pre" for s
    by (simp add: header_and_scope_eq pre_def)
  have ipre: "list_all (indented i) pre"
    using list_all_indented_weaken[OF indented_content_lines[of ?i doc D kw mc]]
    by (simp add: pre_def CL_def indented_append indented_blank)
  show ?case
  proof (cases cx)
    case (Some x)
    have "generate e doc D kw i mc s = (emit CL (header_and_scope e doc D kw i s), Some x)" for s
      by (simp add: generate_unfold ac Some)
    then show ?thesis
      using ipre by (simp add: generated_lines_def result_emit rH result_empty_bridge)
  next
    case None
    define X where "X s = add_line ?i '''' ?src 0 (emit CL (header_and_scope e doc D kw i s))" for s
    have rX: "result (X s) = result s @ pre @ [([], ?src, 0)]" for s
      by (simp add: X_def add_line_emit result_emit rH line_text_blank)
    have gen: "generate e doc D kw i mc s = document_members e doc D kw ?i (X s)" for s
      by (simp add: generate_unfold ac None X_def)
    show ?thesis
    proof (cases "get_child_keywords D kw")
      case (Inl x)
      have "generate e doc D kw i mc s = (X s, Some x)" for s
        by (simp add: gen document_members.simps Inl)
      then show ?thesis
        using ipre by (simp add: generated_lines_def rX result_empty_bridge indented_blank)
    next
      case (Inr cs)
      have gen': "generate e doc D kw i mc s = document_children e doc ?i cs (X s)" for s
        by (simp add: gen document_members.simps Inr)
      have small: "size c < size kw" if "c \<in> set cs" for c
        using child_size[OF that] children_smaller[OF Inr] by simp
      have fr: "result (fst (document_children e doc ?i cs s))
                  = result s @ result (fst (document_children e doc ?i cs empty_bridge))
              \<and> snd (document_children e doc ?i cs s)
                  = snd (document_children e doc ?i cs empty_bridge)
              \<and> list_all (indented ?i)
                  (result (fst (document_children e doc ?i cs empty_bridge)))" for s
        by (rule document_children_frame) (use less small in blast)
      have "list_all (indented i) (result (fst (document_children e doc ?i cs empty_bridge)))"
        using fr list_all_indented_weaken by blast
      then show ?thesis
        using ipre fr[of "X st"] fr[of "X empty_bridge"]
        by (simp add: generated_lines_def gen' rX result_empty_bridge indented_blank)
    qed
  qed
qed

lemma generate_result: "result (fst (generate e doc D kw i mc st)) = result st @ generated_lines e doc D kw i mc"
  using generate_frame by blast

lemma generate_outcome: "snd (generate e doc D kw i mc st) = snd (generate e doc D kw i mc empty_bridge)"
  using generate_frame by blast

lemma indented_generated_lines: "list_all (indented i) (generated_lines e doc D kw i mc)"
  using generate_frame by blast

lemma child_documenter_Some:
  "child_documenter e c = Some D
   \<longleftrightarrow> documenters e (objtype_for_keyword_class e (class_of c)) = Some (DocumenterSubclass D)"
  by (auto simp: child_documenter_def split: option.splits registered.splits)

lemma document_children_lines:
  "\<exists>L. result (fst (document_children e doc i cs st)) = result st @ L \<and> list_all (indented i) L"
proof (induction cs arbitrary: st)
  case Nil
  show ?case by simp
next
  case (Cons c rest)
  show ?case
  proof (cases "child_documenter e c")
    case None
    then have "fst (document_children e doc i (c # rest) st) = st"
      by (auto simp: child_documenter_def split: option.splits registered.splits)
    then show ?thesis by simp
  next
    case (Some D)
    then have d: "documenters e (objtype_for_keyword_class e (class_of c)) = Some (DocumenterSubclass D)"
      by (simp add: child_documenter_Some)
    obtain s1 x1 where e1: "generate e doc D c i None st = (s1, x1)"
      by (cases "generate e doc D c i None st")
    have r1: "result s1 = result st @ generated_lines e doc D c i None"
      using generate_result[of e doc D c i None st] e1 by simp
    show ?thesis
    proof (cases x1)
      case (Some x)
      with d e1 r1 indented_generated_lines[of i e doc D c None] show ?thesis by simp
    next
      case None
      obtain L where "result (fst (document_children e doc i rest s1)) = result s1 @ L"
        and "list_all (indented i) L"
        using Cons.IH[of s1] by blast
      with d e1 r1 None indented_generated_lines[of i e doc D c None] show ?thesis by simp
    qed
  qed
qed

lemma generate_shape:
  "\<exists>rest. result (fst (generate e doc D kw i mc st))
            = result st @ (i @ header_text e D kw, doc_name doc, 0) # ([], doc_name doc, 0) # rest
         \<and> list_all (indented (i @ content_indent)) rest"
proof -
  let ?i = "i @ content_indent"
  let ?H = "header_and_scope e doc D kw i st"
  let ?CL = "content_lines doc D kw ?i mc"
  have rH: "result ?H = result st @ [(i @ header_text e D kw, doc_name doc, 0), ([], doc_name doc, 0)]"
    by (simp add: header_and_scope_eq)
  have iCL: "list_all (indented ?i) ?CL"
    by (rule indented_content_lines)
  show ?thesis
  proof (cases "snd (add_content doc D kw ?i mc empty_bridge)")
    case (Some x)
    have "generate e doc D kw i mc st = (emit ?CL ?H, Some x)"
      by (simp add: generate_unfold add_content_outcome[OF Some])
    then show ?thesis using rH iCL by (simp add: result_emit)
  next
    case None
    let ?X = "add_line ?i '''' (get_sourcename doc) 0 (emit ?CL ?H)"
    have rX: "result ?X = result ?H @ ?CL @ [([], get_sourcename doc, 0)]"
      by (simp add: add_line_emit result_emit line_text_blank)
    have gen: "generate e doc D kw i mc st = document_members e doc D kw ?i ?X"
      by (simp add: generate_unfold add_content_outcome[OF None])
    show ?thesis
    proof (cases "get_child_keywords D kw")
      case (Inl x)
      then show ?thesis
        using rH iCL rX by (simp add: gen document_members.simps indented_blank)
    next
      case (Inr cs)
      obtain L where "result (fst (document_children e doc ?i cs ?X)) = result ?X @ L"
        and "list_all (indented ?i) L"
        using document_children_lines[of e doc ?i cs ?X] by blast
      then show ?thesis
        using Inr rH iCL rX by (simp add: gen document_members.simps indented_blank)
    qed
  qed
qed

lemma header_not_indented: "\<not> indented (i @ content_indent) (i @ header_text e D kw, s, off)"
  by (simp add: indented_def header_text_def content_indent_def)

lemma document_children_append:
  "document_children e doc i (xs @ ys) st =
     (case document_children e doc i xs st of
        (st', Some x) \<Rightarrow> (st', Some x)
      | (st', None) \<Rightarrow> document_children e doc i ys st')"
  by (induction xs arbitrary: st)
     (auto simp: Let_def split: option.splits registered.splits prod.splits)

lemma document_children_normal:
  assumes "snd (document_children e doc i cs st) = None"
  shows "result (fst (document_children e doc i cs st)) = result st @ concat (map (child_lines e doc i) cs)
       \<and> (\<forall>c \<in> set cs. \<exists>D. child_documenter e c = Some D
                               \<and> snd (generate e doc D c i None empty_bridge) = None)"
  using assms
proof (induction cs arbitrary: st)
  case Nil
  show ?case by simp
next
  case (Cons c rest)
  from Cons.prems obtain D where d: "documenters e (objtype_for_keyword_class e (class_of c)) = Some (DocumenterSubclass D)"
    by (auto simp: Let_def split: option.splits registered.splits)
  then have cd: "child_documenter e c = Some D"
    by (simp add: child_documenter_Some)
  obtain s1 x1 where e1: "generate e doc D c i None st = (s1, x1)"
    by (cases "generate e doc D c i None st")
  from Cons.prems d e1 have x1: "x1 = None" and rest: "snd (document_children e doc i rest s1) = None"
    by (auto split: option.splits)
  have r1: "result s1 = result st @ generated_lines e doc D c i None"
    using generate_result[of e doc D c i None st] e1 by simp
  have o1: "snd (generate e doc D c i None empty_bridge) = None"
    using generate_outcome[of e doc D c i None st] e1 x1 by simp
  show ?case
    using Cons.IH[OF rest] d cd e1 x1 r1 o1 by (simp add: child_lines_def)
qed

lemma generate_normal:
  assumes "snd (generate e doc D kw i mc st) = None"
  shows "\<exists>cs. get_child_keywords D kw = Inr cs
           \<and> result (fst (generate e doc D kw i mc st))
               = result st @ [(i @ header_text e D kw, doc_name doc, 0), ([], doc_name doc, 0)]
                 @ content_lines doc D kw (i @ content_indent) mc @ [([], doc_name doc, 0)]
                 @ concat (map (child_lines e doc (i @ content_indent)) cs)
           \<and> (\<forall>c \<in> set cs. \<exists>D'. child_documenter e c = Some D'
                  \<and> snd (generate e doc D' c (i @ content_indent) None empty_bridge) = None)"
proof -
  let ?i = "i @ content_indent"
  let ?H = "header_and_scope e doc D kw i st"
  let ?CL = "content_lines doc D kw ?i mc"
  let ?X = "add_line ?i '''' (get_sourcename doc) 0 (emit ?CL ?H)"
  have cx: "snd (add_content doc D kw ?i mc empty_bridge) = None"
  proof (cases "snd (add_content doc D kw ?i mc empty_bridge)")
    case None
    then show ?thesis .
  next
    case (Some x)
    have "generate e doc D kw i mc st = (emit ?CL ?H, Some x)"
      by (simp add: generate_unfold add_content_outcome[OF Some])
    with assms show ?thesis by simp
  qed
  have gen: "generate e doc D kw i mc st = document_members e doc D kw ?i ?X"
    by (simp add: generate_unfold add_content_outcome[OF cx])
  obtain cs where cs: "get_child_keywords D kw = Inr cs"
    using assms by (cases "get_child_keywords D kw") (simp_all add: gen document_members.simps)
  have dc: "snd (document_children e doc ?i cs ?X) = None"
    using assms cs by (simp add: gen document_members.simps)
  have rX: "result ?X = result st @ [(i @ header_text e D kw, doc_name doc, 0), ([], doc_name doc, 0)]
              @ ?CL @ [([], doc_name doc, 0)]"
    by (simp add: add_line_emit result_emit line_text_blank header_and_scope_eq get_sourcename_def)
  show ?thesis
    using document_children_normal[OF dc] cs rX
    by (simp add: gen document_members.simps)
qed

section \<open>The published scope\<close>

declare walk.simps [simp del]

lemma walk_unfold:
  "walk e D kw = kw # (case get_child_keywords D kw of Inl x \<Rightarrow> []
                       | Inr cs \<Rightarrow> concat (map (walk_child e) cs))"
  unfolding walk_child_def[abs_def] by (rule walk.simps)

lemma walk_nonempty: "walk e D kw \<noteq> []"
  by (subst walk_unfold) simp

lemma walk_size: "k \<in> set (walk e D kw) \<Longrightarrow> size k \<le> size kw"
proof (induction kw arbitrary: D k rule: measure_induct_rule[where f = size])
  case (less kw)
  show ?case
  proof (cases "k = kw")
    case True
    then show ?thesis by simp
  next
    case False
    with less.prems[unfolded walk_unfold[of e D kw]]
    have "\<exists>cs c D'. get_child_keywords D kw = Inr cs \<and> c \<in> set cs
            \<and> child_documenter e c = Some D' \<and> k \<in> set (walk e D' c)"
      by (cases "get_child_keywords D kw") (auto simp: walk_child_def split: option.splits, metis)
    then obtain cs c D' where g: "get_child_keywords D kw = Inr cs"
      and c: "c \<in> set cs" and d: "child_documenter e c = Some D'" and k: "k \<in> set (walk e D' c)"
      by blast
    have "size c < size kw"
      using child_size[OF c] children_smaller[OF g] by simp
    with less.IH[OF this k] show ?thesis by simp
  qed
qed

lemma ref_context_emit: "ref_context (emit L st) = ref_context st"
  by (simp add: emit_def)

lemma walk_children_nonempty:
  assumes "cs \<noteq> []" and "\<forall>c \<in> set cs. \<exists>D. child_documenter e c = Some D"
  shows "concat (map (walk_child e) cs) \<noteq> []"
proof -
  from assms obtain c rest where cs: "cs = c # rest" by (cases cs) auto
  with assms obtain D where "child_documenter e c = Some D" by auto
  then show ?thesis
    by (simp add: cs walk_child_def walk_nonempty)
qed

lemma document_children_scope:
  assumes "\<And>c D st. c \<in> set cs \<Longrightarrow> snd (generate e doc D c i None st) = None \<Longrightarrow>
             ref_context (fst (generate e doc D c i None st))
               = (ref_context st)(domain_name e @ '':scope'' \<mapsto> documented_keyword doc (last (walk e D c)))"
    and "snd (document_children e doc i cs st) = None"
    and "cs \<noteq> []"
  shows "ref_context (fst (document_children e doc i cs st)) =
           (ref_context st)(domain_name e @ '':scope'' \<mapsto>
              documented_keyword doc (last (concat (map (walk_child e) cs))))"
  using assms
proof (induction cs arbitrary: st)
  case Nil
  then show ?case by simp
next
  case (Cons c rest)
  let ?K = "domain_name e @ '':scope''"
  from Cons.prems(2) obtain D where d: "documenters e (objtype_for_keyword_class e (class_of c)) = Some (DocumenterSubclass D)"
    by (auto simp: Let_def split: option.splits registered.splits)
  then have cd: "child_documenter e c = Some D"
    by (simp add: child_documenter_Some)
  obtain s1 x1 where e1: "generate e doc D c i None st = (s1, x1)"
    by (cases "generate e doc D c i None st")
  from Cons.prems(2) d e1 have x1: "x1 = None" and rest: "snd (document_children e doc i rest s1) = None"
    by (auto split: option.splits)
  have n1: "snd (generate e doc D c i None st) = None"
    by (simp add: e1 x1)
  have s1: "ref_context s1 = (ref_context st)(?K \<mapsto> documented_keyword doc (last (walk e D c)))"
    using Cons.prems(1)[OF list.set_intros(1) n1] unfolding e1 fst_conv .
  have dc: "document_children e doc i (c # rest) st = document_children e doc i rest s1"
    using d e1 x1 by simp
  show ?case
  proof (cases "rest = []")
    case True
    have "document_children e doc i (c # rest) st = (s1, None)"
      using dc True by simp
    then have A: "ref_context (fst (document_children e doc i (c # rest) st)) = ref_context s1"
      by simp
    have B: "last (concat (map (walk_child e) (c # rest))) = last (walk e D c)"
      using True cd by (simp add: walk_child_def)
    show ?thesis unfolding A B by (rule s1)
  next
    case False
    have ih: "ref_context (fst (document_children e doc i rest s1)) =
           (ref_context s1)(?K \<mapsto> documented_keyword doc (last (concat (map (walk_child e) rest))))"
      by (rule Cons.IH[OF _ rest False]) (rule Cons.prems(1), simp_all)
    have ne: "concat (map (walk_child e) rest) \<noteq> []"
      using walk_children_nonempty[OF False] document_children_normal[OF rest] by blast
    have B: "last (concat (map (walk_child e) (c # rest))) = last (concat (map (walk_child e) rest))"
      using ne by simp
    have "ref_context (fst (document_children e doc i (c # rest) st))
            = (ref_context s1)(?K \<mapsto> documented_keyword doc (last (concat (map (walk_child e) rest))))"
      unfolding dc by (rule ih)
    also have "\<dots> = (ref_context st)(?K \<mapsto> documented_keyword doc (last (concat (map (walk_child e) rest))))"
      unfolding s1 by (rule fun_upd_upd)
    finally show ?thesis unfolding B .
  qed
qed

lemma generate_scope:
  "snd (generate e doc D kw i mc st) = None \<Longrightarrow>
     ref_context (fst (generate e doc D kw i mc st))
       = (ref_context st)(domain_name e @ '':scope'' \<mapsto> documented_keyword doc (last (walk e D kw)))"
proof (induction kw arbitrary: D i mc st rule: measure_induct_rule[where f = size])
  case (less kw)
  let ?K = "domain_name e @ '':scope''"
  let ?i = "i @ content_indent"
  let ?H = "header_and_scope e doc D kw i st"
  let ?CL = "content_lines doc D kw ?i mc"
  let ?X = "add_line ?i '''' (get_sourcename doc) 0 (emit ?CL ?H)"
  have cx: "snd (add_content doc D kw ?i mc empty_bridge) = None"
  proof (cases "snd (add_content doc D kw ?i mc empty_bridge)")
    case None
    then show ?thesis .
  next
    case (Some x)
    have "generate e doc D kw i mc st = (emit ?CL ?H, Some x)"
      by (simp add: generate_unfold add_content_outcome[OF Some])
    with less.prems show ?thesis by simp
  qed
  have gen: "generate e doc D kw i mc st = document_members e doc D kw ?i ?X"
    by (simp add: generate_unfold add_content_outcome[OF cx])
  obtain cs where cs: "get_child_keywords D kw = Inr cs"
    using less.prems by (cases "get_child_keywords D kw") (simp_all add: gen document_members.simps)
  have g2: "generate e doc D kw i mc st = document_children e doc ?i cs ?X"
    using cs by (simp add: gen document_members.simps)
  have dc: "snd (document_children e doc ?i cs ?X) = None"
    using less.prems by (simp add: g2)
  have rX: "ref_context ?X = (ref_context st)(?K \<mapsto> documented_keyword doc kw)"
    by (simp add: add_line_emit ref_context_emit header_and_scope_eq)
  have small: "size c < size kw" if "c \<in> set cs" for c
    using child_size[OF that] children_smaller[OF cs] by simp
  show ?case
  proof (cases "cs = []")
    case True
    have "generate e doc D kw i mc st = (?X, None)"
      using True by (simp add: g2)
    then have A: "ref_context (fst (generate e doc D kw i mc st)) = ref_context ?X"
      by simp
    have B: "last (walk e D kw) = kw"
      using cs True by (simp add: walk_unfold[of e D kw])
    show ?thesis unfolding A B by (rule rX)
  next
    case False
    have sc: "ref_context (fst (document_children e doc ?i cs ?X)) =
             (ref_context ?X)(?K \<mapsto> documented_keyword doc (last (concat (map (walk_child e) cs))))"
      by (rule document_children_scope[OF _ dc False]) (use less.IH small in blast)
    have ne: "concat (map (walk_child e) cs) \<noteq> []"
      using walk_children_nonempty[OF False] document_children_normal[OF dc] by blast
    have B: "last (walk e D kw) = last (concat (map (walk_child e) cs))"
      by (subst walk_unfold) (simp only: cs sum.case last_ConsR[OF ne])
    have "ref_context (fst (generate e doc D kw i mc st))
            = (ref_context ?X)(?K \<mapsto> documented_keyword doc (last (concat (map (walk_child e) cs))))"
      unfolding g2 by (rule sc)
    also have "\<dots> = (ref_context st)(?K \<mapsto> documented_keyword doc (last (concat (map (walk_child e) cs))))"
      unfolding rX by (rule fun_upd_upd)
    finally show ?thesis unfolding B .
  qed
qed

section \<open>Option validation and reference lookup\<close>

lemma assemble_from_invalid:
  assumes "distinct (map fst opts)"
    and "set (map fst acc) \<inter> set (map fst opts) = {}"
    and "\<exists>nv \<in> set opts. invalid_option spec nv"
    and conv: "\<And>n c v x. map_of spec n = Some (Some c) \<Longrightarrow> c v = Inl x \<Longrightarrow> caught_by_run x"
  shows "\<exists>x. assemble_from acc opts spec = Inl x \<and> caught_by_run x"
  using assms(1-3)
proof (induction opts arbitrary: acc)
  case Nil
  then show ?case by simp
next
  case (Cons nv rest)
  obtain n v where nv: "nv = (n, v)" by (cases nv)
  show ?case
  proof (cases "map_of spec n")
    case None
    then show ?thesis by (simp add: nv caught_by_run_def)
  next
    case (Some co)
    show ?thesis
    proof (cases co)
      case None
      with Some show ?thesis by (simp add: nv caught_by_run_def)
    next
      case c: (Some c)
      have fresh: "n \<notin> set (map fst acc)"
        using Cons.prems(2) by (auto simp: nv)
      show ?thesis
      proof (cases "c v")
        case (Inl x)
        have "caught_by_run x"
          using conv[of n c v x] Some c Inl by simp
        then show ?thesis
          using Some c Inl fresh
          by (cases x) (simp_all add: nv caught_by_run_def)
      next
        case (Inr cv)
        have valid: "\<not> invalid_option spec nv"
          using Some c Inr by (simp add: invalid_option_def nv)
        have 1: "distinct (map fst rest)"
          using Cons.prems(1) by simp
        have 2: "set (map fst (acc @ [(n, cv)])) \<inter> set (map fst rest) = {}"
          using Cons.prems(1,2) by (auto simp: nv)
        have 3: "\<exists>nv \<in> set rest. invalid_option spec nv"
          using Cons.prems(3) valid by auto
        from Cons.IH[OF 1 2 3] show ?thesis
          using Some c Inr fresh by (simp add: nv)
      qed
    qed
  qed
qed

lemma flag_caught: "flag v = Inl x \<Longrightarrow> caught_by_run x"
  by (auto simp: flag_def caught_by_run_def split: option.splits if_splits)

lemma assemble_option_dict_invalid:
  assumes "distinct (map fst opts)" and "\<exists>nv \<in> set opts. invalid_option (option_spec D) nv"
  shows "\<exists>x. assemble_option_dict opts (option_spec D) = Inl x \<and> caught_by_run x"
  unfolding assemble_option_dict_def
proof (rule assemble_from_invalid[OF assms(1) _ assms(2)])
  show "set (map fst []) \<inter> set (map fst opts) = {}" by simp
next
  fix n c v x
  assume "map_of (option_spec D) n = Some (Some c)" and "c v = Inl x"
  then show "caught_by_run x"
    by (auto simp: option_spec_def flag_caught split: if_splits)
qed

lemma run_invalid:
  assumes "documenters (gen_env a) (keyword_to_objtype a (directive_keyword d))
             = Some (DocumenterSubclass D)"
    and "distinct (map fst (options d))"
    and "\<exists>nv \<in> set (options d). invalid_option (option_spec D) nv"
  shows "\<exists>x. run a d w =
           (w\<lparr>w_log := w_log w @
                [Debug_input (snd (get_source_and_line a d)) (fst (get_source_and_line a d))
                   (block_text d),
                 Error_invalid_option (dir_name d) x (docname a, fst (get_source_and_line a d))]\<rparr>,
            Inr [])"
proof -
  obtain x where x: "assemble_option_dict (options d) (option_spec D) = Inl x" "caught_by_run x"
    using assemble_option_dict_invalid[OF assms(2,3)] by blast
  show ?thesis
    using assms(1) x by (auto simp: run_def Let_def split: prod.splits)
qed

lemma run_unregistered:
  assumes "documenters (gen_env a) (keyword_to_objtype a (directive_keyword d)) = None"
  shows "run a d w =
           (w\<lparr>w_log := w_log w @
                [Debug_input (snd (get_source_and_line a d)) (fst (get_source_and_line a d))
                   (block_text d)]\<rparr>,
            Inl (KeyError (keyword_to_objtype a (directive_keyword d))))"
  using assms by (simp add: run_def Let_def split: prod.splits)

lemma feature_by_path_none:
  "(\<forall>p \<in> set ps. documents a (joinpath a p sig) = None) \<Longrightarrow> feature_by_path a sig ps = None"
  by (induction ps) (simp_all add: Let_def)

lemma feature_by_path_first:
  "(\<forall>q \<in> set ps. documents a (joinpath a q sig) = None)
   \<Longrightarrow> documents a (joinpath a p sig) = Some document
   \<Longrightarrow> feature_by_path a sig (ps @ p # qs) = Some (document, doc_feature document)"
  by (induction ps) (simp_all add: Let_def)

section \<open>Evaluating the examples\<close>

lemmas example_defs = example_env_def example_step_def example_examples_def example_scenario_def
  example_rule_def example_feature_def example_ancestry_def example_doc_def
  example_localized_step_def

lemmas eval_defs = generate.simps document_members.simps add_directive_header_def
  format_options_def add_line_def Let_def get_sourcename_def get_directive_name_def
  content_indent_def base_add_content_def format_datatable_def add_docstring_def
  documented_keyword_def strip_def lstrip_def rstrip_def strip_chars_def lower_def
  char_lower_def ascii_uppercase_def ascii_lowercase_def latin1_uppercase_def
  latin1_lowercase_def isspace_def splitlines_def is_linebreak_def empty_bridge_def

lemmas run_defs = run_def get_source_and_line_def directive_keyword_def title_def
  split_once_def char_upper_def assemble_option_dict_def option_spec_def flag_def
  caught_by_run_def get_gherkin_definition_def base_get_gherkin_definition_def
  example_app_def example_app_without_rule_def example_app_without_roots_def
  example_directive_def example_named_directive_def example_rule_directive_def
  example_world_def

lemma example_scenario_returns:
  "snd (generate example_env example_doc ScenarioDocumenter example_scenario [] None st) = None"
proof -
  have "snd (generate example_env example_doc ScenarioDocumenter example_scenario [] None
               empty_bridge) = None"
    by (simp add: example_defs eval_defs)
  then show ?thesis
    by (simp add: generate_outcome[of _ _ _ _ _ _ st])
qed

lemma last_concat_nonempty:
  "xs \<noteq> [] \<Longrightarrow> last xs \<noteq> [] \<Longrightarrow> last (concat xs) = last (last xs)"
  by (induction xs) (auto simp: last_append)

section \<open>The claims\<close>

text \<open>
  C1, as amended. When no Documenter is registered under the objtype tag that the
  declared keyword kind resolves to, \<open>run\<close> raises \<open>KeyError\<close> for that tag: the registry
  is read before the \<open>try\<close> block that guards option validation. Nothing is logged
  beyond the debug record of the input, and no nodes are returned.
\<close>

theorem run_unregistered_kind_raises:
  assumes "documenters (gen_env a) (keyword_to_objtype a (directive_keyword d)) = None"
  shows "run a d w =
           (w\<lparr>w_log := w_log w @
                [Debug_input (snd (get_source_and_line a d)) (fst (get_source_and_line a d))
                   (block_text d)]\<rparr>,
            Inl (KeyError (keyword_to_objtype a (directive_keyword d))))"
  using assms by (rule run_unregistered)

text \<open>
  The amended C1 at the rule directive of an application that has no documenter
  registered for rules.
\<close>

theorem run_unregistered_kind_raises_witness:
  "documenters (gen_env example_app_without_rule)
     (keyword_to_objtype example_app_without_rule (directive_keyword example_rule_directive)) = None
   \<and> run example_app_without_rule example_rule_directive example_world =
       (example_world\<lparr>w_log :=
          [Debug_input (Some ''index.rst'') (Some 12) ''.. gherkin:autorule:: Auth.Access'']\<rparr>,
        Inl (KeyError ''rule''))"
proof -
  have h: "documenters (gen_env example_app_without_rule)
     (keyword_to_objtype example_app_without_rule (directive_keyword example_rule_directive)) = None"
    by (simp add: run_defs example_defs eval_defs)
  show ?thesis
    using h run_unregistered_kind_raises[OF h, of example_world]
    by (simp add: run_defs example_defs eval_defs)
qed

text \<open>
  C1 as the specification states it fails there: the directive ends with an exception
  instead of an empty result, and the log holds no error record.
\<close>

theorem run_unregistered_kind_counterexample:
  "snd (run example_app_without_rule example_rule_directive example_world) = Inl (KeyError ''rule'')
   \<and> snd (run example_app_without_rule example_rule_directive example_world) \<noteq> Inr []
   \<and> w_log (fst (run example_app_without_rule example_rule_directive example_world)) =
       [Debug_input (Some ''index.rst'') (Some 12) ''.. gherkin:autorule:: Auth.Access'']"
  by (simp add: run_defs example_defs eval_defs)

text \<open>
  C2. When the Documenter for the directive is registered and one of the raw options
  has an unknown name or a value that its convertor rejects, \<open>run\<close> logs exactly one
  error, located at the document name and the line of the directive, returns the
  empty list of nodes and raises nothing; the rest of the world is unchanged. The raw
  options are the items of a dict, so their names are distinct.
\<close>

theorem run_invalid_option_reported:
  assumes "documenters (gen_env a) (keyword_to_objtype a (directive_keyword d))
             = Some (DocumenterSubclass D)"
    and "distinct (map fst (options d))"
    and "\<exists>nv \<in> set (options d). invalid_option (option_spec D) nv"
  shows "\<exists>x. run a d w =
           (w\<lparr>w_log := w_log w @
                [Debug_input (snd (get_source_and_line a d)) (fst (get_source_and_line a d))
                   (block_text d),
                 Error_invalid_option (dir_name d) x (docname a, fst (get_source_and_line a d))]\<rparr>,
            Inr [])"
  using assms by (rule run_invalid)

text \<open>C2 at a feature directive that carries the unknown option \<open>bogus\<close>.\<close>

theorem run_invalid_option_reported_witness:
  "documenters (gen_env example_app)
     (keyword_to_objtype example_app
        (directive_keyword (example_directive\<lparr>options := [(''bogus'', None)]\<rparr>)))
     = Some (DocumenterSubclass FeatureDocumenter)
   \<and> distinct (map fst (options (example_directive\<lparr>options := [(''bogus'', None)]\<rparr>)))
   \<and> invalid_option (option_spec FeatureDocumenter) (''bogus'', None)
   \<and> run example_app (example_directive\<lparr>options := [(''bogus'', None)]\<rparr>) example_world =
       (example_world\<lparr>w_log :=
          [Debug_input (Some ''index.rst'') (Some 7) ''.. gherkin:autofeature:: login.feature'',
           Error_invalid_option ''gherkin:autofeature'' (KeyError ''bogus'') (''index'', Some 7)]\<rparr>,
        Inr [])"
proof -
  let ?d = "example_directive\<lparr>options := [(''bogus'', None)]\<rparr>"
  have h1: "documenters (gen_env example_app) (keyword_to_objtype example_app (directive_keyword ?d))
              = Some (DocumenterSubclass FeatureDocumenter)"
    by (simp add: run_defs example_defs eval_defs)
  have h2: "distinct (map fst (options ?d))"
    by simp
  have i: "invalid_option (option_spec FeatureDocumenter) (''bogus'', None)"
    by (simp add: invalid_option_def option_spec_def)
  then have h3: "\<exists>nv \<in> set (options ?d). invalid_option (option_spec FeatureDocumenter) nv"
    by simp
  show ?thesis
    using h1 h2 i run_invalid_option_reported[OF h1 h2 h3, of example_world]
    by (simp add: run_defs example_defs eval_defs)
qed

text \<open>
  C3, as amended. When \<open>get_config_gherkin_sources\<close> returns the configured source
  roots and there is at least one, a feature directive joins each root with its
  reference, in order, and looks the joined path up among the documents of the store:
  the first root whose joined path is a key gives that document and its root feature,
  and when no root matches, the result is that of the default lookup, \<open>find_one\<close> on
  the qualified name, errors included. When \<open>get_config_gherkin_sources\<close> raises, as it
  does with \<open>SphinxGherkinError\<close> when no root is configured, the exception leaves the
  directive and no lookup takes place; only a \<open>KeyError\<close> is caught and leads to the
  default lookup. Every other directive uses the default lookup.
\<close>

theorem feature_reference_resolution:
  "(dir_class d = AutoFeatureDescription
      \<and> get_config_gherkin_sources a = Inr (ps @ p # qs)
      \<and> (\<forall>q \<in> set ps. documents a (joinpath a q (argument d)) = None)
      \<and> documents a (joinpath a p (argument d)) = Some document
      \<longrightarrow> get_gherkin_definition a d = Inr (document, doc_feature document))
   \<and> (dir_class d = AutoFeatureDescription
      \<and> get_config_gherkin_sources a = Inr paths \<and> paths \<noteq> []
      \<and> (\<forall>q \<in> set paths. documents a (joinpath a q (argument d)) = None)
      \<longrightarrow> get_gherkin_definition a d = find_one a (get_name a (argument d)))
   \<and> (dir_class d = AutoFeatureDescription
      \<and> get_config_gherkin_sources a = Inr paths \<and> paths \<noteq> []
      \<and> (\<forall>q \<in> set paths. documents a (joinpath a q (argument d)) = None)
      \<and> find_one a (get_name a (argument d)) = Inl x
      \<longrightarrow> get_gherkin_definition a d = Inl x)
   \<and> (dir_class d = AutoFeatureDescription
      \<and> get_config_gherkin_sources a = Inl y \<and> (\<forall>m. y \<noteq> KeyError m)
      \<longrightarrow> get_gherkin_definition a d = Inl y)
   \<and> (dir_class d = AutoFeatureDescription
      \<and> get_config_gherkin_sources a = Inl (KeyError k)
      \<longrightarrow> get_gherkin_definition a d = find_one a (get_name a (argument d)))
   \<and> (dir_class d \<noteq> AutoFeatureDescription
      \<longrightarrow> get_gherkin_definition a d = find_one a (get_name a (argument d)))"
proof (intro conjI impI)
  assume "dir_class d = AutoFeatureDescription
      \<and> get_config_gherkin_sources a = Inr (ps @ p # qs)
      \<and> (\<forall>q \<in> set ps. documents a (joinpath a q (argument d)) = None)
      \<and> documents a (joinpath a p (argument d)) = Some document"
  then show "get_gherkin_definition a d = Inr (document, doc_feature document)"
    by (simp add: get_gherkin_definition_def feature_by_path_first)
next
  assume "dir_class d = AutoFeatureDescription
      \<and> get_config_gherkin_sources a = Inr paths \<and> paths \<noteq> []
      \<and> (\<forall>q \<in> set paths. documents a (joinpath a q (argument d)) = None)"
  then show "get_gherkin_definition a d = find_one a (get_name a (argument d))"
    by (simp add: get_gherkin_definition_def base_get_gherkin_definition_def
          feature_by_path_none)
next
  assume "dir_class d = AutoFeatureDescription
      \<and> get_config_gherkin_sources a = Inr paths \<and> paths \<noteq> []
      \<and> (\<forall>q \<in> set paths. documents a (joinpath a q (argument d)) = None)
      \<and> find_one a (get_name a (argument d)) = Inl x"
  then show "get_gherkin_definition a d = Inl x"
    by (simp add: get_gherkin_definition_def base_get_gherkin_definition_def
          feature_by_path_none)
next
  assume "dir_class d = AutoFeatureDescription
      \<and> get_config_gherkin_sources a = Inl y \<and> (\<forall>m. y \<noteq> KeyError m)"
  then show "get_gherkin_definition a d = Inl y"
    by (cases y) (simp_all add: get_gherkin_definition_def)
next
  assume "dir_class d = AutoFeatureDescription
      \<and> get_config_gherkin_sources a = Inl (KeyError k)"
  then show "get_gherkin_definition a d = find_one a (get_name a (argument d))"
    by (simp add: get_gherkin_definition_def base_get_gherkin_definition_def)
next
  assume "dir_class d \<noteq> AutoFeatureDescription"
  then show "get_gherkin_definition a d = find_one a (get_name a (argument d))"
    by (simp add: get_gherkin_definition_def base_get_gherkin_definition_def)
qed

text \<open>
  The amended C3 with the source root \<open>/docs/features\<close> and a store that holds
  \<open>/docs/features/login.feature\<close>: the reference \<open>login.feature\<close> resolves to that
  document's feature, and a reference that matches nothing ends in the not-found
  error of the default lookup. Without a configured root the \<open>SphinxGherkinError\<close>
  comes out, a \<open>KeyError\<close> in its place gives the default lookup, and so does a rule
  directive.
\<close>

theorem feature_reference_resolution_witness:
  "get_gherkin_definition example_app example_directive = Inr (example_doc, example_feature)
   \<and> get_gherkin_definition example_app (example_directive\<lparr>argument := ''missing.feature''\<rparr>)
       = Inl (NotFound ''missing.feature'')
   \<and> get_gherkin_definition example_app_without_roots example_named_directive
       = Inl (SphinxGherkinError ''gherkin_sources'')
   \<and> get_gherkin_definition
         (example_app\<lparr>get_config_gherkin_sources := Inl (KeyError ''gherkin_sources'')\<rparr>)
         example_directive
       = Inl (NotFound ''login.feature'')
   \<and> get_gherkin_definition example_app example_rule_directive = Inl (NotFound ''Auth.Access'')"
proof -
  have 1: "dir_class example_directive = AutoFeatureDescription
      \<and> get_config_gherkin_sources example_app = Inr ([] @ ''/docs/features'' # [])
      \<and> (\<forall>q \<in> set []. documents example_app (joinpath example_app q (argument example_directive)) = None)
      \<and> documents example_app (joinpath example_app ''/docs/features'' (argument example_directive))
          = Some example_doc"
    by (simp add: run_defs)
  let ?m = "example_directive\<lparr>argument := ''missing.feature''\<rparr>"
  have 2: "dir_class ?m = AutoFeatureDescription
      \<and> get_config_gherkin_sources example_app = Inr [''/docs/features'']
      \<and> [''/docs/features''] \<noteq> []
      \<and> (\<forall>q \<in> set [''/docs/features''].
            documents example_app (joinpath example_app q (argument ?m)) = None)
      \<and> find_one example_app (get_name example_app (argument ?m)) = Inl (NotFound ''missing.feature'')"
    by (simp add: run_defs)
  have 3: "dir_class example_named_directive = AutoFeatureDescription
      \<and> get_config_gherkin_sources example_app_without_roots
          = Inl (SphinxGherkinError ''gherkin_sources'')
      \<and> (\<forall>m. SphinxGherkinError ''gherkin_sources'' \<noteq> KeyError m)"
    by (simp add: run_defs)
  let ?k = "example_app\<lparr>get_config_gherkin_sources := Inl (KeyError ''gherkin_sources'')\<rparr>"
  have 4: "dir_class example_directive = AutoFeatureDescription
      \<and> get_config_gherkin_sources ?k = Inl (KeyError ''gherkin_sources'')
      \<and> find_one ?k (get_name ?k (argument example_directive)) = Inl (NotFound ''login.feature'')"
    by (simp add: run_defs)
  have 5: "dir_class example_rule_directive \<noteq> AutoFeatureDescription
      \<and> find_one example_app (get_name example_app (argument example_rule_directive))
          = Inl (NotFound ''Auth.Access'')"
    by (simp add: run_defs)
  have f: "doc_feature example_doc = example_feature"
    by (simp add: example_doc_def)
  have a: "get_gherkin_definition example_app example_directive = Inr (example_doc, example_feature)"
    using 1 f
      feature_reference_resolution[where d = example_directive and a = example_app
        and ps = "[]" and p = "''/docs/features''" and qs = "[]" and document = example_doc]
    by simp
  have b: "get_gherkin_definition example_app ?m = Inl (NotFound ''missing.feature'')"
    using 2
      feature_reference_resolution[where d = ?m and a = example_app
        and paths = "[''/docs/features'']" and x = "NotFound ''missing.feature''"]
    by simp
  have c: "get_gherkin_definition example_app_without_roots example_named_directive
             = Inl (SphinxGherkinError ''gherkin_sources'')"
    using 3
      feature_reference_resolution[where d = example_named_directive
        and a = example_app_without_roots and y = "SphinxGherkinError ''gherkin_sources''"]
    by simp
  have d: "get_gherkin_definition ?k example_directive = Inl (NotFound ''login.feature'')"
    using 4
      feature_reference_resolution[where d = example_directive and a = ?k
        and k = "''gherkin_sources''"]
    by simp
  have e: "get_gherkin_definition example_app example_rule_directive
             = Inl (NotFound ''Auth.Access'')"
    using 5
      feature_reference_resolution[where d = example_rule_directive and a = example_app]
    by simp
  from a b c d e show ?thesis
    by (intro conjI)
qed

text \<open>
  C3 as the specification states it fails for the empty set of roots. No root is
  configured, so no root yields a match, and the default lookup would find the
  feature \<open>Auth\<close>; the directive ends with the \<open>SphinxGherkinError\<close> of
  \<open>get_config_gherkin_sources\<close> instead.
\<close>

theorem feature_reference_without_roots_counterexample:
  "dir_class example_named_directive = AutoFeatureDescription
   \<and> get_config_gherkin_sources example_app_without_roots
       = Inl (SphinxGherkinError ''gherkin_sources'')
   \<and> find_one example_app_without_roots
         (get_name example_app_without_roots (argument example_named_directive))
       = Inr (example_doc, example_feature)
   \<and> get_gherkin_definition example_app_without_roots example_named_directive
       = Inl (SphinxGherkinError ''gherkin_sources'')
   \<and> get_gherkin_definition example_app_without_roots example_named_directive
       \<noteq> find_one example_app_without_roots
           (get_name example_app_without_roots (argument example_named_directive))"
  by (simp add: run_defs)

text \<open>
  C4. Whatever the documenter class and the node, \<open>generate\<close> appends the directive
  header first: the domain name, the directive name and the node's summary, at the
  documenter's indentation. No later line that this call or its children append has
  the same text, so the header is there exactly once and before all content and all
  child output. The directive name is the class's objtype tag, except for steps, where
  it is made from the step keyword in three steps. The keyword loses the whitespace
  at its two ends: what is cut is whitespace only, and what is left neither starts nor
  ends with whitespace. That text loses the colons at its two ends: what is cut is
  colons only, and what is left neither starts nor ends with a colon; colons inside
  stay. Last, every capital letter is replaced by its small letter and every other
  character is kept, so the name has the length of that text and no capital letter.
\<close>

theorem generate_header_once_first:
  "(\<exists>rest. result (fst (generate e doc D kw i mc st))
             = result st @ (i @ header_text e D kw, doc_name doc, 0) # rest
          \<and> i @ header_text e D kw \<notin> set (map fst rest))
   \<and> header_text e D kw
       = ''.. '' @ domain_name e @ '':'' @ get_directive_name D kw @ '':: '' @ summary kw
   \<and> get_directive_name D kw
       = (if D = StepDocumenter then lower (strip_chars '':'' (strip (keyword kw)))
          else objtype D)
   \<and> (\<exists>l r. keyword kw = l @ strip (keyword kw) @ r \<and> list_all isspace l \<and> list_all isspace r)
   \<and> (strip (keyword kw) \<noteq> []
        \<longrightarrow> \<not> isspace (hd (strip (keyword kw))) \<and> \<not> isspace (last (strip (keyword kw))))
   \<and> (\<exists>a b. strip (keyword kw)
               = replicate a (CHR '':'') @ strip_chars '':'' (strip (keyword kw))
                 @ replicate b (CHR '':''))
   \<and> (strip_chars '':'' (strip (keyword kw)) \<noteq> []
        \<longrightarrow> hd (strip_chars '':'' (strip (keyword kw))) \<noteq> CHR '':''
          \<and> last (strip_chars '':'' (strip (keyword kw))) \<noteq> CHR '':'')
   \<and> lower (strip_chars '':'' (strip (keyword kw)))
       = map (\<lambda>c. if capital_letter c then small_of c else c)
           (strip_chars '':'' (strip (keyword kw)))
   \<and> list_all (\<lambda>c. \<not> capital_letter c) (lower (strip_chars '':'' (strip (keyword kw))))"
proof (intro conjI)
  obtain rest where r: "result (fst (generate e doc D kw i mc st))
            = result st @ (i @ header_text e D kw, doc_name doc, 0) # ([], doc_name doc, 0) # rest"
    and ind: "list_all (indented (i @ content_indent)) rest"
    using generate_shape[of e doc D kw i mc st] by blast
  have A: "fst l \<noteq> i @ header_text e D kw" if "l \<in> set rest" for l
  proof
    assume eq: "fst l = i @ header_text e D kw"
    have "indented (i @ content_indent) l"
      using ind that by (simp add: list_all_iff)
    then have "indented (i @ content_indent) (i @ header_text e D kw, snd l)"
      using eq by (simp add: indented_def)
    then show False
      using header_not_indented[of i e D kw "fst (snd l)" "snd (snd l)"] by simp
  qed
  have B: "i @ header_text e D kw \<notin> fst ` set rest"
  proof
    assume "i @ header_text e D kw \<in> fst ` set rest"
    then obtain l where "l \<in> set rest" and "fst l = i @ header_text e D kw"
      by auto
    with A show False by simp
  qed
  have C: "i @ header_text e D kw \<noteq> []"
    by (simp add: header_text_def)
  have "i @ header_text e D kw \<notin> set (map fst (([], doc_name doc, 0) # rest))"
    using B C by simp
  with r show "\<exists>rest. result (fst (generate e doc D kw i mc st))
             = result st @ (i @ header_text e D kw, doc_name doc, 0) # rest
          \<and> i @ header_text e D kw \<notin> set (map fst rest)"
    by (intro exI[of _ "([], doc_name doc, 0) # rest"]) simp
next
  show "header_text e D kw
       = ''.. '' @ domain_name e @ '':'' @ get_directive_name D kw @ '':: '' @ summary kw"
    by (simp add: header_text_def)
next
  show "get_directive_name D kw
       = (if D = StepDocumenter then lower (strip_chars '':'' (strip (keyword kw)))
          else objtype D)"
    by (simp add: get_directive_name_def)
next
  show "\<exists>l r. keyword kw = l @ strip (keyword kw) @ r \<and> list_all isspace l \<and> list_all isspace r"
    by (rule strip_ends)
next
  show "strip (keyword kw) \<noteq> []
        \<longrightarrow> \<not> isspace (hd (strip (keyword kw))) \<and> \<not> isspace (last (strip (keyword kw)))"
    using strip_core[of "keyword kw"] by blast
next
  show "\<exists>a b. strip (keyword kw)
               = replicate a (CHR '':'') @ strip_chars '':'' (strip (keyword kw))
                 @ replicate b (CHR '':'')"
    by (rule strip_chars_ends)
next
  show "strip_chars '':'' (strip (keyword kw)) \<noteq> []
        \<longrightarrow> hd (strip_chars '':'' (strip (keyword kw))) \<noteq> CHR '':''
          \<and> last (strip_chars '':'' (strip (keyword kw))) \<noteq> CHR '':''"
    using strip_chars_core[of "CHR '':''" "strip (keyword kw)"] by blast
next
  show "lower (strip_chars '':'' (strip (keyword kw)))
       = map (\<lambda>c. if capital_letter c then small_of c else c)
           (strip_chars '':'' (strip (keyword kw)))"
    by (rule lower_capital)
next
  show "list_all (\<lambda>c. \<not> capital_letter c) (lower (strip_chars '':'' (strip (keyword kw))))"
    by (rule lower_has_no_capital)
qed

text \<open>
  C4 at the example step, whose keyword \<open>Given\<close> gives the directive name \<open>given\<close>, and
  at the French step: its keyword without the space is \<open>:\<close>, U+00C9, \<open>tant donn\<close>,
  U+00E9, \<open>:\<close>, without the colons it starts with U+00C9, and the directive name
  starts with U+00E9.
\<close>

theorem generate_header_once_first_witness:
  "(\<exists>rest. result (fst (generate example_env example_doc StepDocumenter example_step [] None
                          empty_bridge))
             = (''.. gherkin:given:: a user'', ''/docs/features/login.feature'', 0) # rest
          \<and> ''.. gherkin:given:: a user'' \<notin> set (map fst rest))
   \<and> strip (keyword example_localized_step)
       = CHR '':'' # CHR 0xC9 # ''tant donn'' @ [CHR 0xE9] @ '':''
   \<and> strip_chars '':'' (strip (keyword example_localized_step))
       = CHR 0xC9 # ''tant donn'' @ [CHR 0xE9]
   \<and> hd (strip_chars '':'' (strip (keyword example_localized_step))) \<noteq> CHR '':''
   \<and> last (strip_chars '':'' (strip (keyword example_localized_step))) \<noteq> CHR '':''
   \<and> get_directive_name StepDocumenter example_localized_step
       = CHR 0xE9 # ''tant donn'' @ [CHR 0xE9]
   \<and> (\<exists>rest. result (fst (generate example_env example_doc StepDocumenter
                              example_localized_step [] None empty_bridge))
             = (''.. gherkin:'' @ CHR 0xE9 # ''tant donn'' @ [CHR 0xE9] @ '':: un utilisateur'',
                ''/docs/features/login.feature'', 0) # rest
          \<and> ''.. gherkin:'' @ CHR 0xE9 # ''tant donn'' @ [CHR 0xE9] @ '':: un utilisateur''
               \<notin> set (map fst rest))"
proof -
  note t = generate_header_once_first[of example_env example_doc StepDocumenter
             example_localized_step "[]" None empty_bridge]
  have s: "strip (keyword example_localized_step)
             = CHR '':'' # CHR 0xC9 # ''tant donn'' @ [CHR 0xE9] @ '':''"
    by (simp add: example_defs eval_defs)
  have c: "strip_chars '':'' (strip (keyword example_localized_step))
             = CHR 0xC9 # ''tant donn'' @ [CHR 0xE9]"
    by (simp add: s strip_chars_def)
  have h1: "strip (keyword example_localized_step) \<noteq> []"
    by (simp add: s)
  have h2: "strip_chars '':'' (strip (keyword example_localized_step)) \<noteq> []"
    by (simp add: c)
  have e: "hd (strip_chars '':'' (strip (keyword example_localized_step))) \<noteq> CHR '':''
         \<and> last (strip_chars '':'' (strip (keyword example_localized_step))) \<noteq> CHR '':''"
    using t h2 by blast
  then have e1: "hd (strip_chars '':'' (strip (keyword example_localized_step))) \<noteq> CHR '':''"
    and e2: "last (strip_chars '':'' (strip (keyword example_localized_step))) \<noteq> CHR '':''"
    by (rule conjunct1, rule conjunct2)
  have n: "get_directive_name StepDocumenter example_localized_step
             = CHR 0xE9 # ''tant donn'' @ [CHR 0xE9]"
    by (simp add: get_directive_name_def c lower_def char_lower_def ascii_uppercase_def
          ascii_lowercase_def latin1_uppercase_def latin1_lowercase_def)
  have h: "header_text example_env StepDocumenter example_localized_step
             = ''.. gherkin:'' @ CHR 0xE9 # ''tant donn'' @ [CHR 0xE9] @ '':: un utilisateur''"
    by (simp add: header_text_def n) (simp add: example_defs)
  have g: "\<exists>rest. result (fst (generate example_env example_doc StepDocumenter
                              example_localized_step [] None empty_bridge))
             = (''.. gherkin:'' @ CHR 0xE9 # ''tant donn'' @ [CHR 0xE9] @ '':: un utilisateur'',
                ''/docs/features/login.feature'', 0) # rest
          \<and> ''.. gherkin:'' @ CHR 0xE9 # ''tant donn'' @ [CHR 0xE9] @ '':: un utilisateur''
               \<notin> set (map fst rest)"
    using t[THEN conjunct1] by (simp add: h empty_bridge_def example_doc_def)
  have g0: "\<exists>rest. result (fst (generate example_env example_doc StepDocumenter example_step [] None
                          empty_bridge))
             = (''.. gherkin:given:: a user'', ''/docs/features/login.feature'', 0) # rest
          \<and> ''.. gherkin:given:: a user'' \<notin> set (map fst rest)"
    using generate_header_once_first[of example_env example_doc StepDocumenter example_step "[]"
            None empty_bridge, THEN conjunct1]
    by (simp add: header_text_def example_defs eval_defs)
  from g0 s c e1 e2 n g show ?thesis
    by (intro conjI)
qed

text \<open>
  C5. Every line that \<open>generate\<close> appends after the header and its separator is
  blank or starts with the documenter's indentation plus one unit of
  \<open>content_indent\<close>; the header itself is at the documenter's indentation, and no
  class formats an option line. When \<open>generate\<close> returns, what it appended is the
  header, a blank line, the content, a blank line, and then for each child keyword in
  turn the lines of that child's documenter run at the parent's indentation plus one
  unit: each of those lines is blank or starts with that indentation, and the first of
  them is the child's header exactly there.
\<close>

theorem child_lines_one_unit_deeper:
  "(\<exists>rest. result (fst (generate e doc D kw i mc st))
             = result st @ (i @ header_text e D kw, doc_name doc, 0) # ([], doc_name doc, 0) # rest
          \<and> list_all (indented (i @ content_indent)) rest)
   \<and> format_options D = []
   \<and> (snd (generate e doc D kw i mc st) = None \<longrightarrow>
        (\<exists>cs. get_child_keywords D kw = Inr cs
           \<and> result (fst (generate e doc D kw i mc st))
               = result st @ [(i @ header_text e D kw, doc_name doc, 0), ([], doc_name doc, 0)]
                 @ content_lines doc D kw (i @ content_indent) mc @ [([], doc_name doc, 0)]
                 @ concat (map (child_lines e doc (i @ content_indent)) cs)
           \<and> list_all (indented (i @ content_indent)) (content_lines doc D kw (i @ content_indent) mc)
           \<and> (\<forall>c \<in> set cs.
                 list_all (indented (i @ content_indent)) (child_lines e doc (i @ content_indent) c)
               \<and> (\<exists>D' rest. child_documenter e c = Some D'
                      \<and> child_lines e doc (i @ content_indent) c
                          = ((i @ content_indent) @ header_text e D' c, doc_name doc, 0) # rest))))"
proof (intro conjI impI)
  show "\<exists>rest. result (fst (generate e doc D kw i mc st))
             = result st @ (i @ header_text e D kw, doc_name doc, 0) # ([], doc_name doc, 0) # rest
          \<and> list_all (indented (i @ content_indent)) rest"
    by (rule generate_shape)
next
  show "format_options D = []"
    by (simp add: format_options_def)
next
  assume n: "snd (generate e doc D kw i mc st) = None"
  obtain cs where cs: "get_child_keywords D kw = Inr cs"
    and r: "result (fst (generate e doc D kw i mc st))
               = result st @ [(i @ header_text e D kw, doc_name doc, 0), ([], doc_name doc, 0)]
                 @ content_lines doc D kw (i @ content_indent) mc @ [([], doc_name doc, 0)]
                 @ concat (map (child_lines e doc (i @ content_indent)) cs)"
    and ch: "\<forall>c \<in> set cs. \<exists>D'. child_documenter e c = Some D'
                  \<and> snd (generate e doc D' c (i @ content_indent) None empty_bridge) = None"
    using generate_normal[OF n] by blast
  have each: "list_all (indented (i @ content_indent)) (child_lines e doc (i @ content_indent) c)
               \<and> (\<exists>D' rest. child_documenter e c = Some D'
                      \<and> child_lines e doc (i @ content_indent) c
                          = ((i @ content_indent) @ header_text e D' c, doc_name doc, 0) # rest)"
    if c: "c \<in> set cs" for c
  proof -
    obtain D' where d: "child_documenter e c = Some D'"
      using ch c by blast
    obtain rest where "result (fst (generate e doc D' c (i @ content_indent) None empty_bridge))
        = result empty_bridge @ ((i @ content_indent) @ header_text e D' c, doc_name doc, 0)
            # ([], doc_name doc, 0) # rest"
      using generate_shape[of e doc D' c "i @ content_indent" None empty_bridge] by blast
    then have "child_lines e doc (i @ content_indent) c
        = ((i @ content_indent) @ header_text e D' c, doc_name doc, 0) # ([], doc_name doc, 0) # rest"
      by (simp add: child_lines_def d generated_lines_def result_empty_bridge)
    moreover have "list_all (indented (i @ content_indent)) (child_lines e doc (i @ content_indent) c)"
      by (simp add: child_lines_def d indented_generated_lines)
    ultimately show ?thesis
      using d by blast
  qed
  show "\<exists>cs. get_child_keywords D kw = Inr cs
           \<and> result (fst (generate e doc D kw i mc st))
               = result st @ [(i @ header_text e D kw, doc_name doc, 0), ([], doc_name doc, 0)]
                 @ content_lines doc D kw (i @ content_indent) mc @ [([], doc_name doc, 0)]
                 @ concat (map (child_lines e doc (i @ content_indent)) cs)
           \<and> list_all (indented (i @ content_indent)) (content_lines doc D kw (i @ content_indent) mc)
           \<and> (\<forall>c \<in> set cs.
                 list_all (indented (i @ content_indent)) (child_lines e doc (i @ content_indent) c)
               \<and> (\<exists>D' rest. child_documenter e c = Some D'
                      \<and> child_lines e doc (i @ content_indent) c
                          = ((i @ content_indent) @ header_text e D' c, doc_name doc, 0) # rest))"
    using cs r each indented_content_lines[of "i @ content_indent" doc D kw mc] by blast
qed

text \<open>
  C5 at the example scenario, generated without indentation: the lines of its step
  are blank or start with four spaces, and the first of them is the step's header
  after exactly four spaces.
\<close>

theorem child_lines_one_unit_deeper_witness:
  "snd (generate example_env example_doc ScenarioDocumenter example_scenario [] None empty_bridge)
     = None
   \<and> list_all (indented ''    '') (child_lines example_env example_doc ''    '' example_step)
   \<and> (\<exists>rest. child_lines example_env example_doc ''    '' example_step
         = (''    .. gherkin:given:: a user'', ''/docs/features/login.feature'', 0) # rest)"
proof -
  have h: "snd (generate example_env example_doc ScenarioDocumenter example_scenario [] None
                  empty_bridge) = None"
    by (rule example_scenario_returns)
  have cs: "get_child_keywords ScenarioDocumenter example_scenario
              = Inr [example_step, example_examples]"
    by (simp add: example_scenario_def)
  have d: "child_documenter example_env example_step = Some StepDocumenter"
    by (simp add: child_documenter_def example_env_def example_step_def)
  have t: "header_text example_env StepDocumenter example_step = ''.. gherkin:given:: a user''"
    by (simp add: header_text_def example_defs eval_defs)
  show ?thesis
    using h cs d t
      child_lines_one_unit_deeper[of example_env example_doc ScenarioDocumenter example_scenario
        "[]" None empty_bridge]
    by (auto simp: content_indent_def example_doc_def)
qed

text \<open>
  C6. The child keywords of a scenario's documenter are its steps followed by its
  examples. \<open>document_members\<close> therefore generates all steps before the first
  examples block, and stops at the first failure; when \<open>generate\<close> returns, the lines
  of all steps precede the lines of all examples blocks in what it appended.
\<close>

theorem scenario_steps_before_examples:
  "get_child_keywords ScenarioDocumenter (Scenario l s ss es) = Inr (ss @ es)
   \<and> document_members e doc ScenarioDocumenter (Scenario l s ss es) i st
       = (case document_children e doc i ss st of
            (st', Some x) \<Rightarrow> (st', Some x)
          | (st', None) \<Rightarrow> document_children e doc i es st')
   \<and> (snd (generate e doc ScenarioDocumenter (Scenario l s ss es) i mc st) = None \<longrightarrow>
        result (fst (generate e doc ScenarioDocumenter (Scenario l s ss es) i mc st))
          = result st
            @ [(i @ header_text e ScenarioDocumenter (Scenario l s ss es), doc_name doc, 0),
               ([], doc_name doc, 0)]
            @ content_lines doc ScenarioDocumenter (Scenario l s ss es) (i @ content_indent) mc
            @ [([], doc_name doc, 0)]
            @ concat (map (child_lines e doc (i @ content_indent)) ss)
            @ concat (map (child_lines e doc (i @ content_indent)) es))"
proof (intro conjI impI)
  show cs: "get_child_keywords ScenarioDocumenter (Scenario l s ss es) = Inr (ss @ es)"
    by simp
  show "document_members e doc ScenarioDocumenter (Scenario l s ss es) i st
       = (case document_children e doc i ss st of
            (st', Some x) \<Rightarrow> (st', Some x)
          | (st', None) \<Rightarrow> document_children e doc i es st')"
    by (simp add: document_members.simps document_children_append)
  assume "snd (generate e doc ScenarioDocumenter (Scenario l s ss es) i mc st) = None"
  from generate_normal[OF this] cs
  show "result (fst (generate e doc ScenarioDocumenter (Scenario l s ss es) i mc st))
          = result st
            @ [(i @ header_text e ScenarioDocumenter (Scenario l s ss es), doc_name doc, 0),
               ([], doc_name doc, 0)]
            @ content_lines doc ScenarioDocumenter (Scenario l s ss es) (i @ content_indent) mc
            @ [([], doc_name doc, 0)]
            @ concat (map (child_lines e doc (i @ content_indent)) ss)
            @ concat (map (child_lines e doc (i @ content_indent)) es)"
    by auto
qed

text \<open>
  C6 at the example scenario: after its own header and separators come the lines of
  its step, then the lines of its examples block.
\<close>

theorem scenario_steps_before_examples_witness:
  "snd (generate example_env example_doc ScenarioDocumenter
          (Scenario ''Scenario'' ''Login'' [example_step] [example_examples]) [] None empty_bridge)
     = None
   \<and> map fst (result (fst (generate example_env example_doc ScenarioDocumenter
          (Scenario ''Scenario'' ''Login'' [example_step] [example_examples]) [] None empty_bridge)))
     = [''.. gherkin:scenario:: Login'', [], []]
       @ map fst (child_lines example_env example_doc ''    '' example_step)
       @ map fst (child_lines example_env example_doc ''    '' example_examples)"
proof -
  have h: "snd (generate example_env example_doc ScenarioDocumenter
          (Scenario ''Scenario'' ''Login'' [example_step] [example_examples]) [] None empty_bridge)
     = None"
    using example_scenario_returns[of empty_bridge] by (simp add: example_scenario_def)
  have c: "content_lines example_doc ScenarioDocumenter
             (Scenario ''Scenario'' ''Login'' [example_step] [example_examples]) ''    '' None = []"
    by (simp add: content_lines_def base_add_content_def empty_bridge_def)
  have t: "header_text example_env ScenarioDocumenter
             (Scenario ''Scenario'' ''Login'' [example_step] [example_examples])
           = ''.. gherkin:scenario:: Login''"
    by (simp add: header_text_def get_directive_name_def example_env_def)
  show ?thesis
    using h c t
      scenario_steps_before_examples[where l = "''Scenario''" and s = "''Login''"
        and ss = "[example_step]" and es = "[example_examples]" and e = example_env
        and doc = example_doc and i = "[]" and mc = None and st = empty_bridge]
    by (simp add: content_indent_def result_empty_bridge)
qed

text \<open>
  C7. For a step, \<open>add_content\<close> appends the docstring block when there is a
  docstring (the code-block line, a blank line, the docstring's lines one unit deeper,
  a blank line), then the table block when there is a data table (the table and a
  blank line), then the supplementary content, in this order and with nothing else.
\<close>

theorem step_content_order:
  "add_content doc StepDocumenter (Step l s ds dt) i mc st =
     (st\<lparr>result := result st
           @ docstring_lines i (doc_name doc) ds
           @ (case dt of
                None \<Rightarrow> []
              | Some t \<Rightarrow> datatable_lines i (doc_name doc) t @ [([], doc_name doc, 0)])
           @ more_lines i mc\<rparr>,
      None)"
  using add_content_Step[of doc l s ds dt i mc st]
  unfolding emit_def get_sourcename_def .

text \<open>
  C7 at the example step, which has a docstring and a data table, with one line of
  supplementary content.
\<close>

theorem step_content_order_witness:
  "map fst (result (fst (add_content example_doc StepDocumenter
      (Step ''Given '' ''a user'' (Some (Docstring ''json'' ''{}''))
         (Some (DataTable [[''a'', ''b''], [''c'', ''d'']])))
      [] (Some [(''See also.'', ''index.rst'', 9)]) empty_bridge)))
   = [''.. code-block:: json'', [], ''    {}'', [],
      ''.. list-table::'', [], ''    * - a'', ''      - b'', ''    * - c'', ''      - d'', [],
      ''See also.'']"
  using step_content_order[of example_doc "''Given ''" "''a user''" "Some (Docstring ''json'' ''{}'')"
          "Some (DataTable [[''a'', ''b''], [''c'', ''d'']])" "[]"
          "Some [(''See also.'', ''index.rst'', 9)]" empty_bridge]
  by (simp add: docstring_lines_def datatable_lines_def more_lines_def line_text_def
        result_empty_bridge eval_defs)

text \<open>
  C8. \<open>format_datatable\<close> appends the list-table marker, a blank line, and for each
  row one \<open>* - cell\<close> line for its first cell and one \<open>  - cell\<close> line for each further
  cell, every line under the marker at the documenter's indentation plus one unit of
  \<open>content_indent\<close>. The rows \<open>[[a, b], [c, d]]\<close> give \<open>* - a\<close>, \<open>  - b\<close>, \<open>* - c\<close>,
  \<open>  - d\<close>; a table without rows gives the marker and the blank line only.
\<close>

theorem format_datatable_list_table:
  "format_datatable i doc (Some (DataTable rows)) st =
     (st\<lparr>result := result st
           @ [(i @ ''.. list-table::'', doc_name doc, 0), ([], doc_name doc, 0)]
           @ concat (map (\<lambda>row. case row of
                                  [] \<Rightarrow> []
                                | c # cs \<Rightarrow>
                                    (i @ content_indent @ ''* - '' @ c, doc_name doc, 0)
                                    # map (\<lambda>c. (i @ content_indent @ ''  - '' @ c, doc_name doc, 0)) cs)
                       rows)\<rparr>,
      None)
   \<and> map fst (result (fst (format_datatable i doc
                 (Some (DataTable [[''a'', ''b''], [''c'', ''d'']])) st)))
       = map fst (result st)
         @ [i @ ''.. list-table::'', [],
            i @ content_indent @ ''* - a'', i @ content_indent @ ''  - b'',
            i @ content_indent @ ''* - c'', i @ content_indent @ ''  - d'']
   \<and> map fst (result (fst (format_datatable i doc (Some (DataTable [])) st)))
       = map fst (result st) @ [i @ ''.. list-table::'', []]"
proof -
  have rest: "cell_lines i src False cs = map (\<lambda>c. (i @ content_indent @ ''  - '' @ c, src, 0)) cs"
    for src cs
    by (induction cs) simp_all
  have row: "cell_lines i src True row =
               (case row of
                  [] \<Rightarrow> []
                | c # cs \<Rightarrow> (i @ content_indent @ ''* - '' @ c, src, 0)
                             # map (\<lambda>c. (i @ content_indent @ ''  - '' @ c, src, 0)) cs)"
    for src row
    by (cases row) (simp_all add: rest)
  have "cell_lines i src True = (\<lambda>row. case row of
                  [] \<Rightarrow> []
                | c # cs \<Rightarrow> (i @ content_indent @ ''* - '' @ c, src, 0)
                             # map (\<lambda>c. (i @ content_indent @ ''  - '' @ c, src, 0)) cs)"
    for src
    by (rule ext) (rule row)
  then have general: "format_datatable i doc (Some (DataTable rows)) st =
     (st\<lparr>result := result st
           @ [(i @ ''.. list-table::'', doc_name doc, 0), ([], doc_name doc, 0)]
           @ concat (map (\<lambda>row. case row of
                                  [] \<Rightarrow> []
                                | c # cs \<Rightarrow>
                                    (i @ content_indent @ ''* - '' @ c, doc_name doc, 0)
                                    # map (\<lambda>c. (i @ content_indent @ ''  - '' @ c, doc_name doc, 0)) cs)
                       rows)\<rparr>,
      None)" for rows
    by (simp add: format_datatable_Some datatable_lines_def emit_def get_sourcename_def)
  show ?thesis
    by (simp add: general)
qed

text \<open>C8 for a documenter without indentation, on a bridge that starts empty.\<close>

theorem format_datatable_list_table_witness:
  "map fst (result (fst (format_datatable [] example_doc
              (Some (DataTable [[''a'', ''b''], [''c'', ''d'']])) empty_bridge)))
     = [''.. list-table::'', [], ''    * - a'', ''      - b'', ''    * - c'', ''      - d'']
   \<and> map fst (result (fst (format_datatable [] example_doc (Some (DataTable [])) empty_bridge)))
     = [''.. list-table::'', []]"
  using format_datatable_list_table[of "[]" example_doc "[]" empty_bridge]
  by (simp add: content_indent_def result_empty_bridge)

text \<open>
  C9. The documented-keyword snapshot of a node is the sequence of (label, summary)
  pairs of \<open>get_ancestry\<close>, reversed: root first, the node last. \<open>generate\<close> stores it
  under the domain's scope key once it has appended the header and the separator, and
  \<open>add_content\<close> starts from that state and leaves the entry as it is.
\<close>

theorem scope_root_to_leaf_before_content:
  "documented_keyword doc kw = rev (map (\<lambda>k. (keyword k, summary k)) (get_ancestry doc kw))
   \<and> ref_context (header_and_scope e doc D kw i st) (domain_name e @ '':scope'')
       = Some (documented_keyword doc kw)
   \<and> result (header_and_scope e doc D kw i st)
       = result st @ [(i @ header_text e D kw, doc_name doc, 0), ([], doc_name doc, 0)]
   \<and> generate e doc D kw i mc st =
       (case add_content doc D kw (i @ content_indent) mc (header_and_scope e doc D kw i st) of
          (st5, Some x) \<Rightarrow> (st5, Some x)
        | (st5, None) \<Rightarrow>
            document_members e doc D kw (i @ content_indent)
              (add_line (i @ content_indent) '''' (get_sourcename doc) 0 st5))
   \<and> ref_context (fst (add_content doc D kw (i @ content_indent) mc
                         (header_and_scope e doc D kw i st))) (domain_name e @ '':scope'')
       = Some (documented_keyword doc kw)"
proof (intro conjI)
  show "documented_keyword doc kw = rev (map (\<lambda>k. (keyword k, summary k)) (get_ancestry doc kw))"
    by (simp add: documented_keyword_def rev_map)
  show "ref_context (header_and_scope e doc D kw i st) (domain_name e @ '':scope'')
          = Some (documented_keyword doc kw)"
    by (simp add: header_and_scope_eq)
  show "result (header_and_scope e doc D kw i st)
          = result st @ [(i @ header_text e D kw, doc_name doc, 0), ([], doc_name doc, 0)]"
    by (simp add: header_and_scope_eq)
  show "generate e doc D kw i mc st =
       (case add_content doc D kw (i @ content_indent) mc (header_and_scope e doc D kw i st) of
          (st5, Some x) \<Rightarrow> (st5, Some x)
        | (st5, None) \<Rightarrow>
            document_members e doc D kw (i @ content_indent)
              (add_line (i @ content_indent) '''' (get_sourcename doc) 0 st5))"
    by (rule generate_unfold)
  have "fst (add_content doc D kw (i @ content_indent) mc (header_and_scope e doc D kw i st))
          = emit (content_lines doc D kw (i @ content_indent) mc) (header_and_scope e doc D kw i st)"
    using add_content_eq[of doc D kw "i @ content_indent" mc "header_and_scope e doc D kw i st"]
    by simp
  then show "ref_context (fst (add_content doc D kw (i @ content_indent) mc
                         (header_and_scope e doc D kw i st))) (domain_name e @ '':scope'')
       = Some (documented_keyword doc kw)"
    by (simp add: ref_context_emit header_and_scope_eq)
qed

text \<open>
  C9 at the example step, which lies under a feature, a rule and a scenario: the
  snapshot names the feature first and the step last.
\<close>

theorem scope_root_to_leaf_before_content_witness:
  "get_ancestry example_doc example_step
     = [example_step, example_scenario, example_rule, example_feature]
   \<and> ref_context (header_and_scope example_env example_doc StepDocumenter example_step []
                    empty_bridge) ''gherkin:scope''
     = Some [(''Feature'', ''Auth''), (''Rule'', ''Access''), (''Scenario'', ''Login''),
             (''Given '', ''a user'')]"
proof -
  have a: "get_ancestry example_doc example_step
     = [example_step, example_scenario, example_rule, example_feature]"
    by (simp add: example_doc_def example_ancestry_def)
  show ?thesis
    using a scope_root_to_leaf_before_content[of example_doc example_step example_env
            StepDocumenter "[]" empty_bridge None]
    by (simp add: example_env_def example_step_def example_scenario_def example_rule_def
          example_feature_def)
qed

text \<open>
  C10. \<open>generate\<close> never puts the scope entry back. When it returns for a node that
  has child keywords, the entry is the snapshot of the last node of the recursive
  walk. That node lies in the walk of the last child keyword, so it is a descendant
  and not the node itself; whenever its ancestry and the node's differ in length, as
  they do for a chain up to the root, the entry is not the node's own snapshot.
\<close>

theorem scope_left_at_last_descendant:
  assumes "snd (generate e doc D kw i mc st) = None"
    and "get_child_keywords D kw = Inr cs"
    and "cs \<noteq> []"
  shows "ref_context (fst (generate e doc D kw i mc st)) (domain_name e @ '':scope'')
           = Some (documented_keyword doc (last (walk e D kw)))
       \<and> last (walk e D kw) \<in> set (walk_child e (last cs))
       \<and> last (walk e D kw) \<noteq> kw
       \<and> (length (get_ancestry doc (last (walk e D kw))) \<noteq> length (get_ancestry doc kw)
            \<longrightarrow> ref_context (fst (generate e doc D kw i mc st)) (domain_name e @ '':scope'')
                  \<noteq> Some (documented_keyword doc kw))"
proof -
  let ?K = "domain_name e @ '':scope''"
  let ?k = "last (walk e D kw)"
  have full: "ref_context (fst (generate e doc D kw i mc st))
                = (ref_context st)(?K \<mapsto> documented_keyword doc ?k)"
    by (rule generate_scope[OF assms(1)])
  have scope: "ref_context (fst (generate e doc D kw i mc st)) ?K = Some (documented_keyword doc ?k)"
    unfolding full by (rule fun_upd_same)
  obtain cs' where "get_child_keywords D kw = Inr cs'"
    and "\<forall>c \<in> set cs'. \<exists>D'. child_documenter e c = Some D'
            \<and> snd (generate e doc D' c (i @ content_indent) None empty_bridge) = None"
    using generate_normal[OF assms(1)] by blast
  with assms(2) have docs: "\<forall>c \<in> set cs. \<exists>D'. child_documenter e c = Some D'"
    by auto
  then obtain D' where d: "child_documenter e (last cs) = Some D'"
    using assms(3) last_in_set by blast
  have wl: "walk_child e (last cs) = walk e D' (last cs)"
    by (simp add: walk_child_def d)
  have ne: "concat (map (walk_child e) cs) \<noteq> []"
    by (rule walk_children_nonempty[OF assms(3) docs])
  have "?k = last (concat (map (walk_child e) cs))"
    by (subst walk_unfold) (simp only: assms(2) sum.case last_ConsR[OF ne])
  also have "\<dots> = last (last (map (walk_child e) cs))"
    using assms(3) by (intro last_concat_nonempty) (simp_all add: last_map wl walk_nonempty)
  also have "\<dots> = last (walk_child e (last cs))"
    using assms(3) by (simp add: last_map)
  finally have k: "?k = last (walk_child e (last cs))" .
  have mem: "?k \<in> set (walk_child e (last cs))"
    unfolding k by (rule last_in_set) (simp add: wl walk_nonempty)
  then have "size ?k \<le> size (last cs)"
    unfolding wl by (rule walk_size)
  moreover have "size (last cs) < size kw"
    using child_size[of "last cs" cs] children_smaller[OF assms(2)] assms(3) by simp
  ultimately have neq: "?k \<noteq> kw"
    by auto
  have len: "length (documented_keyword doc x) = length (get_ancestry doc x)" for x
    by (simp add: documented_keyword_def)
  have "documented_keyword doc ?k \<noteq> documented_keyword doc kw"
    if "length (get_ancestry doc ?k) \<noteq> length (get_ancestry doc kw)"
    using that len by metis
  with scope mem neq show ?thesis
    by simp
qed

text \<open>
  C10 at the example scenario: once it is generated, the scope entry is the snapshot
  of its examples block, the last node of the walk, and not the scenario's own.
\<close>

theorem scope_left_at_last_descendant_witness:
  "snd (generate example_env example_doc ScenarioDocumenter example_scenario [] None empty_bridge)
     = None
   \<and> get_child_keywords ScenarioDocumenter example_scenario = Inr [example_step, example_examples]
   \<and> ref_context (fst (generate example_env example_doc ScenarioDocumenter example_scenario []
                         None empty_bridge)) ''gherkin:scope''
       = Some [(''Feature'', ''Auth''), (''Rule'', ''Access''), (''Scenario'', ''Login''),
               (''Examples'', ''names'')]
   \<and> documented_keyword example_doc example_scenario
       = [(''Feature'', ''Auth''), (''Rule'', ''Access''), (''Scenario'', ''Login'')]"
proof -
  have h: "snd (generate example_env example_doc ScenarioDocumenter example_scenario [] None
                  empty_bridge) = None"
    by (rule example_scenario_returns)
  have cs: "get_child_keywords ScenarioDocumenter example_scenario
              = Inr [example_step, example_examples]"
    by (simp add: example_scenario_def)
  have w: "last (walk example_env ScenarioDocumenter example_scenario) = example_examples"
    by (simp add: walk_unfold walk_child_def child_documenter_def example_env_def
          example_scenario_def example_step_def example_examples_def)
  have s: "documented_keyword example_doc example_examples
             = [(''Feature'', ''Auth''), (''Rule'', ''Access''), (''Scenario'', ''Login''),
                (''Examples'', ''names'')]"
    by (simp add: documented_keyword_def example_defs)
  have o: "documented_keyword example_doc example_scenario
             = [(''Feature'', ''Auth''), (''Rule'', ''Access''), (''Scenario'', ''Login'')]"
    by (simp add: documented_keyword_def example_defs)
  have n: "[example_step, example_examples] \<noteq> []"
    by simp
  show ?thesis
    using h cs w s o scope_left_at_last_descendant[OF h cs n]
    by (simp add: example_env_def)
qed

end
